theory Spec2Isabelle
  imports Main "HOL-Library.Word"
begin

unbundle bit_operations_syntax

section \<open>Anvil: HD key derivation paths and address codecs\<close>

text \<open>
  A shallow embedding of the key-derivation and address-encoding core of the Anvil
  wallet generator (Go). Go strings are byte sequences, as Isabelle's \<open>string\<close> is;
  \<open>[]byte\<close> is a list of 8-bit words; \<open>uint32\<close> and \<open>uint64\<close> are words.
\<close>

type_synonym byte = "8 word"
type_synonym uint32 = "32 word"
type_synonym uint64 = "64 word"

subsection \<open>Go standard library: package strings\<close>

text \<open>\<open>strings.HasPrefix(s, prefix)\<close> and \<open>strings.HasSuffix(s, suffix)\<close>.\<close>

definition HasPrefix :: "string \<Rightarrow> string \<Rightarrow> bool" where
  "HasPrefix s prefix = (length s \<ge> length prefix \<and> take (length prefix) s = prefix)"

definition HasSuffix :: "string \<Rightarrow> string \<Rightarrow> bool" where
  "HasSuffix s suffix =
     (length s \<ge> length suffix \<and> drop (length s - length suffix) s = suffix)"

text \<open>
  \<open>strings.Split(s, sep)\<close> for a separator of one byte: the substrings between the
  separators, so one more string than there are separators (\<open>Split("", "/")\<close> is
  \<open>[""]\<close>).
\<close>

fun Split :: "string \<Rightarrow> char \<Rightarrow> string list" where
  "Split [] sep = [[]]"
| "Split (c # cs) sep =
     (if c = sep then [] # Split cs sep
      else (case Split cs sep of
              [] \<Rightarrow> [[c]]
            | p # ps \<Rightarrow> (c # p) # ps))"

subsection \<open>Go standard library: strconv.ParseUint(s, 10, 32)\<close>

datatype num_error = ErrSyntax | ErrRange

text \<open>
  The loop of \<open>strconv.ParseUint\<close> for base 10 and bitSize 32, over a \<open>uint64\<close>
  accumulator \<open>n\<close>: a byte that is not a digit of the base is a syntax error; the
  value leaving the range is a range error, reported at the byte where it happens.
  \<open>cutoff\<close> is \<open>maxUint64/10 + 1\<close> and \<open>maxVal\<close> is \<open>1<<32 - 1\<close>.
\<close>

definition cutoff :: uint64 where
  "cutoff = (- 1) div 10 + 1"

definition maxVal :: uint64 where
  "maxVal = push_bit 32 1 - 1"

definition isDigit :: "char \<Rightarrow> bool" where
  "isDigit c = (of_char (CHR ''0'') \<le> (of_char c :: nat) \<and> (of_char c :: nat) \<le> of_char (CHR ''9''))"

definition digitVal :: "char \<Rightarrow> nat" where
  "digitVal c = of_char c - of_char (CHR ''0'')"

fun ParseUint_loop :: "uint64 \<Rightarrow> string \<Rightarrow> num_error + uint64" where
  "ParseUint_loop n [] = Inr n"
| "ParseUint_loop n (c # cs) =
     (if \<not> isDigit c then Inl ErrSyntax
      else if n \<ge> cutoff then Inl ErrRange
      else (let n' = n * 10; n1 = n' + of_nat (digitVal c)
            in if n1 < n' \<or> n1 > maxVal then Inl ErrRange
               else ParseUint_loop n1 cs))"

definition ParseUint :: "string \<Rightarrow> num_error + uint64" where
  "ParseUint s = (if s = [] then Inl ErrSyntax else ParseUint_loop 0 s)"

subsection \<open>Go standard library: fmt verb \<open>%d\<close> for an unsigned integer\<close>

definition digitChar :: "nat \<Rightarrow> char" where
  "digitChar d = char_of (of_char (CHR ''0'') + d)"

function formatUint :: "nat \<Rightarrow> string" where
  "formatUint n = (if n < 10 then [digitChar n] else formatUint (n div 10) @ [digitChar (n mod 10)])"
  by pat_completeness auto
termination
  by (relation "measure id") auto

declare formatUint.simps [simp del]

subsection \<open>pkg/types: DerivationPath\<close>

record DerivationPath =
  Purpose :: uint32
  CoinType :: uint32
  Account :: uint32
  Change :: uint32
  Index :: uint32

definition apostrophe :: char where
  "apostrophe = CHR 0x27"

text \<open>\<open>DerivationPath.String\<close>: \<open>fmt.Sprintf("m/%d'/%d'/%d'/%d/%d", ...)\<close>.\<close>

definition String :: "DerivationPath \<Rightarrow> string" where
  "String dp =
     ''m/'' @ formatUint (unat (Purpose dp)) @ [apostrophe] @ ''/''
            @ formatUint (unat (CoinType dp)) @ [apostrophe] @ ''/''
            @ formatUint (unat (Account dp)) @ [apostrophe] @ ''/''
            @ formatUint (unat (Change dp)) @ ''/''
            @ formatUint (unat (Index dp))"

subsection \<open>internal/crypto: ParseDerivationPath\<close>

text \<open>
  Every error of the parser is of the kind \<open>InvalidDerivationPath\<close>; the constructors
  keep the \<open>fmt.Errorf\<close> that produced it.
\<close>

datatype component_error =
    ShouldBeHardened
  | ShouldNotBeHardened
  | InvalidNumber num_error

datatype path_error =
    MissingPrefix
  | WrongComponentCount
  | InvalidPurpose component_error
  | InvalidCoinType component_error
  | InvalidAccount component_error
  | InvalidChange component_error
  | InvalidIndex component_error

definition parsePathComponent :: "string \<Rightarrow> bool \<Rightarrow> component_error + uint32" where
  "parsePathComponent component shouldBeHardened =
     (let isHardened = HasSuffix component [apostrophe]
      in if shouldBeHardened \<and> \<not> isHardened then Inl ShouldBeHardened
         else if \<not> shouldBeHardened \<and> isHardened then Inl ShouldNotBeHardened
         else (let numStr = (if isHardened then take (length component - 1) component
                             else component)
               in case ParseUint numStr of
                    Inl e \<Rightarrow> Inl (InvalidNumber e)
                  | Inr val \<Rightarrow> Inr (ucast val)))"

definition ParseDerivationPath :: "string \<Rightarrow> path_error + DerivationPath" where
  "ParseDerivationPath path =
     (if \<not> HasPrefix path ''m/'' then Inl MissingPrefix
      else (case Split (drop 2 path) (CHR ''/'') of
              [p0, p1, p2, p3, p4] \<Rightarrow>
                (case parsePathComponent p0 True of
                   Inl e \<Rightarrow> Inl (InvalidPurpose e)
                 | Inr purpose \<Rightarrow>
                (case parsePathComponent p1 True of
                   Inl e \<Rightarrow> Inl (InvalidCoinType e)
                 | Inr coinType \<Rightarrow>
                (case parsePathComponent p2 True of
                   Inl e \<Rightarrow> Inl (InvalidAccount e)
                 | Inr account \<Rightarrow>
                (case parsePathComponent p3 False of
                   Inl e \<Rightarrow> Inl (InvalidChange e)
                 | Inr change \<Rightarrow>
                (case parsePathComponent p4 False of
                   Inl e \<Rightarrow> Inl (InvalidIndex e)
                 | Inr index \<Rightarrow>
                     Inr \<lparr>Purpose = purpose, CoinType = coinType, Account = account,
                          Change = change, Index = index\<rparr>)))))
            | _ \<Rightarrow> Inl WrongComponentCount))"

subsection \<open>The path grammar in the words of the specification\<close>

text \<open>
  The value of a decimal numeral, read digit by digit from the left, and what the
  specification calls a valid unsigned 32-bit decimal: a non-empty string of decimal
  digits whose value fits 32 bits.
\<close>

definition decimalFrom :: "nat \<Rightarrow> string \<Rightarrow> nat" where
  "decimalFrom v s = foldl (\<lambda>v c. v * 10 + digitVal c) v s"

definition decimalValue :: "string \<Rightarrow> nat" where
  "decimalValue s = decimalFrom 0 s"

definition validUint32Decimal :: "string \<Rightarrow> bool" where
  "validUint32Decimal s = (s \<noteq> [] \<and> list_all isDigit s \<and> decimalValue s < 2 ^ 32)"

text \<open>
  A component carries the hardened marker when it ends with an apostrophe; its numeral
  is the component without the marker. The components of a path are the strings
  between the slashes after the first two bytes.
\<close>

definition carriesMarker :: "string \<Rightarrow> bool" where
  "carriesMarker c = (c \<noteq> [] \<and> last c = apostrophe)"

definition numeralOf :: "string \<Rightarrow> string" where
  "numeralOf c = (if carriesMarker c then butlast c else c)"

definition components :: "string \<Rightarrow> string list" where
  "components path = Split (drop 2 path) (CHR ''/'')"

text \<open>
  The BIP44 profile: five components, of which the first three carry the marker and
  the last two do not. A path is invalid when the prefix is missing, the count is
  wrong, the markers are against the profile, or a numeral is not a valid unsigned
  32-bit decimal.
\<close>

definition bip44Hardening :: "bool list" where
  "bip44Hardening = [True, True, True, False, False]"

definition bip44Invalid :: "string \<Rightarrow> bool" where
  "bip44Invalid path =
     (take 2 path \<noteq> ''m/''
      \<or> length (components path) \<noteq> 5
      \<or> map carriesMarker (components path) \<noteq> bip44Hardening
      \<or> \<not> list_all (\<lambda>c. validUint32Decimal (numeralOf c)) (components path))"

definition componentValue :: "string \<Rightarrow> uint32" where
  "componentValue c = of_nat (decimalValue (numeralOf c))"

definition bip44Path :: "string list \<Rightarrow> DerivationPath" where
  "bip44Path cs =
     \<lparr>Purpose = componentValue (cs ! 0), CoinType = componentValue (cs ! 1),
      Account = componentValue (cs ! 2), Change = componentValue (cs ! 3),
      Index = componentValue (cs ! 4)\<rparr>"

text \<open>
  A numeral is canonical when it has no superfluous leading zero: it is \<open>0\<close> itself or
  does not start with the digit \<open>0\<close>.
\<close>

definition canonicalNumeral :: "string \<Rightarrow> bool" where
  "canonicalNumeral n = (n = ''0'' \<or> take 1 n \<noteq> ''0'')"

text \<open>\<open>strings.Join(elems, sep)\<close> for a separator of one byte, the inverse of \<open>Split\<close>.\<close>

fun Join :: "string list \<Rightarrow> char \<Rightarrow> string" where
  "Join [] sep = []"
| "Join [p] sep = p"
| "Join (p # q # ps) sep = p @ sep # Join (q # ps) sep"

subsection \<open>The coin instances and cmd/anvil: getCoinInstance\<close>

text \<open>
  The implementations of the interface \<open>types.Coin\<close>, with the fields their
  constructors set. Of the network parameters of a \<open>BitcoinCoin\<close> the model keeps
  \<open>PubKeyHashAddrID\<close>, the version byte of its addresses. The selectors are the
  struct fields, prefixed with \<open>coin_\<close>.
\<close>

datatype Coin =
    BitcoinCoin (coin_name: string) (coin_symbol: string) (coin_coinType: uint32)
      (coin_PubKeyHashAddrID: byte)
  | EthereumCoin (coin_name: string) (coin_symbol: string) (coin_coinType: uint32)
      (coin_chainID: uint64)
  | TronCoin (coin_name: string) (coin_symbol: string) (coin_coinType: uint32)
  | SolanaCoin (coin_name: string) (coin_symbol: string) (coin_coinType: uint32)
      (coin_network: string)

definition NewBitcoin :: Coin where
  "NewBitcoin = BitcoinCoin ''Bitcoin'' ''BTC'' 0 0x00"

definition NewDogecoin :: Coin where
  "NewDogecoin = BitcoinCoin ''Dogecoin'' ''DOGE'' 3 0x1E"

definition NewEthereum :: Coin where
  "NewEthereum = EthereumCoin ''Ethereum'' ''ETH'' 60 1"

definition NewBinanceCoin :: Coin where
  "NewBinanceCoin = EthereumCoin ''BNB Smart Chain'' ''BNB'' 60 56"

definition NewTron :: Coin where
  "NewTron = TronCoin ''TRON'' ''TRX'' 195"

definition NewSolana :: Coin where
  "NewSolana = SolanaCoin ''Solana'' ''SOL'' 501 ''mainnet-beta''"

text \<open>
  \<open>getCoinInstance\<close>: the \<open>switch\<close> over the symbol; \<open>None\<close> is the \<open>nil\<close> of the
  default case, which the caller \<open>deriveAccount\<close> turns into the error
  \<open>unsupported coin type\<close>.
\<close>

definition getCoinInstance :: "string \<Rightarrow> Coin option" where
  "getCoinInstance coinType =
     (if coinType = ''BTC'' then Some NewBitcoin
      else if coinType = ''ETH'' then Some NewEthereum
      else if coinType = ''DOGE'' then Some NewDogecoin
      else if coinType = ''BNB'' then Some NewBinanceCoin
      else if coinType = ''TRX'' then Some NewTron
      else None)"

text \<open>
  The coins of a full wallet generation, as \<open>createWalletFromMnemonic\<close> lists them, and
  in their order.
\<close>

definition walletCoins :: "Coin list" where
  "walletCoins = [NewBitcoin, NewEthereum, NewDogecoin, NewBinanceCoin, NewTron]"

subsection \<open>Go standard library: bytes of a string, case mapping, hex encoding\<close>

text \<open>
  \<open>[]byte(s)\<close> and \<open>string(b)\<close>. \<open>strings.TrimPrefix\<close>. \<open>strings.ToLower\<close> and
  \<open>strings.ToUpper\<close> are modelled on strings of ASCII bytes, where they map the letters
  \<open>A\<close> to \<open>Z\<close> and \<open>a\<close> to \<open>z\<close> and keep every other byte; the address codecs apply
  them to ASCII strings only.
\<close>

definition bytesOf :: "string \<Rightarrow> byte list" where
  "bytesOf s = map of_char s"

definition stringOf :: "byte list \<Rightarrow> string" where
  "stringOf b = map (\<lambda>w. char_of (unat w)) b"

definition TrimPrefix :: "string \<Rightarrow> string \<Rightarrow> string" where
  "TrimPrefix s prefix = (if HasPrefix s prefix then drop (length prefix) s else s)"

definition inRange :: "char \<Rightarrow> char \<Rightarrow> char \<Rightarrow> bool" where
  "inRange lo hi c = ((of_char lo :: nat) \<le> of_char c \<and> (of_char c :: nat) \<le> of_char hi)"

definition toLowerChar :: "char \<Rightarrow> char" where
  "toLowerChar c = (if inRange (CHR ''A'') (CHR ''Z'') c then char_of (of_char c + (32 :: nat)) else c)"

definition toUpperChar :: "char \<Rightarrow> char" where
  "toUpperChar c = (if inRange (CHR ''a'') (CHR ''z'') c then char_of (of_char c - (32 :: nat)) else c)"

definition ToLower :: "string \<Rightarrow> string" where
  "ToLower s = map toLowerChar s"

definition ToUpper :: "string \<Rightarrow> string" where
  "ToUpper s = map toUpperChar s"

text \<open>\<open>hex.EncodeToString\<close>: two lower-case hex digits for each byte, the high nibble first.\<close>

definition hextable :: string where
  "hextable = ''0123456789abcdef''"

definition EncodeToString :: "byte list \<Rightarrow> string" where
  "EncodeToString src =
     concat (map (\<lambda>v. [hextable ! unat (drop_bit 4 v), hextable ! unat (v AND 0x0f)]) src)"

subsection \<open>go-ethereum: common.IsHexAddress\<close>

text \<open>
  Modelled from the spec: the library function \<open>common.IsHexAddress\<close> of go-ethereum
  is not among the sources. It says whether a string can stand for a hex-encoded
  address: after an optional prefix \<open>0x\<close> or \<open>0X\<close>, exactly 40 hex digits of either case.
\<close>

definition isHexCharacter :: "char \<Rightarrow> bool" where
  "isHexCharacter c =
     (inRange (CHR ''0'') (CHR ''9'') c \<or> inRange (CHR ''a'') (CHR ''f'') c
      \<or> inRange (CHR ''A'') (CHR ''F'') c)"

definition has0xPrefix :: "string \<Rightarrow> bool" where
  "has0xPrefix str = (take 2 str = ''0x'' \<or> take 2 str = ''0X'')"

definition IsHexAddress :: "string \<Rightarrow> bool" where
  "IsHexAddress s =
     (let s = (if has0xPrefix s then drop 2 s else s)
      in length s = 40 \<and> list_all isHexCharacter s)"

subsection \<open>internal/ethereum: address validation and the EIP-55 checksum\<close>

text \<open>
  \<open>toChecksumAddress\<close>. The Keccak-256 hash function of go-ethereum is a parameter
  (\<open>Keccak256Hash\<close>, returning the bytes of the hash). The loop runs over the lower-cased
  address with the byte index \<open>i\<close>; reading \<open>hashHex[i]\<close> beyond the end of \<open>hashHex\<close>
  panics, which is the result \<open>None\<close>.
\<close>

fun toChecksumAddress_loop :: "string \<Rightarrow> nat \<Rightarrow> string \<Rightarrow> string \<Rightarrow> string option" where
  "toChecksumAddress_loop hashHex i [] result = Some result"
| "toChecksumAddress_loop hashHex i (char # rest) result =
     (if inRange (CHR ''0'') (CHR ''9'') char
      then toChecksumAddress_loop hashHex (i + 1) rest (result @ [char])
      else if i < length hashHex
      then (let hashChar = hashHex ! i
            in if (of_char hashChar :: nat) \<ge> of_char (CHR ''8'')
               then toChecksumAddress_loop hashHex (i + 1) rest (result @ ToUpper [char])
               else toChecksumAddress_loop hashHex (i + 1) rest (result @ [char]))
      else None)"

definition toChecksumAddress :: "(byte list \<Rightarrow> byte list) \<Rightarrow> string \<Rightarrow> string option" where
  "toChecksumAddress Keccak256Hash address =
     (let address = ToLower (TrimPrefix address ''0x'');
          hash = Keccak256Hash (bytesOf address);
          hashHex = EncodeToString hash
      in toChecksumAddress_loop hashHex 0 address ''0x'')"

text \<open>\<open>hasMixedCase\<close>: the loop sets one of two flags for each letter \<open>A\<close>-\<open>F\<close> or \<open>a\<close>-\<open>f\<close>.\<close>

fun hasMixedCase_loop :: "string \<Rightarrow> bool \<Rightarrow> bool \<Rightarrow> bool" where
  "hasMixedCase_loop [] hasUpper hasLower = (hasUpper \<and> hasLower)"
| "hasMixedCase_loop (char # rest) hasUpper hasLower =
     (if inRange (CHR ''A'') (CHR ''F'') char then hasMixedCase_loop rest True hasLower
      else if inRange (CHR ''a'') (CHR ''f'') char then hasMixedCase_loop rest hasUpper True
      else hasMixedCase_loop rest hasUpper hasLower)"

definition hasMixedCase :: "string \<Rightarrow> bool" where
  "hasMixedCase address = hasMixedCase_loop (TrimPrefix address ''0x'') False False"

definition isValidChecksum :: "(byte list \<Rightarrow> byte list) \<Rightarrow> string \<Rightarrow> bool option" where
  "isValidChecksum Keccak256Hash address =
     map_option (\<lambda>c. address = c) (toChecksumAddress Keccak256Hash address)"

definition EthereumCoin_ValidateAddress :: "(byte list \<Rightarrow> byte list) \<Rightarrow> string \<Rightarrow> bool option" where
  "EthereumCoin_ValidateAddress Keccak256Hash address =
     (if \<not> HasPrefix address ''0x'' then Some False
      else if \<not> IsHexAddress address then Some False
      else if hasMixedCase address then isValidChecksum Keccak256Hash address
      else Some True)"

subsection \<open>EIP-55 in the words of the specification\<close>

text \<open>
  A candidate has the shape of an address when it is \<open>0x\<close> followed by 40 hex digits.
  It is of mixed case when it has a lower-case and an upper-case letter digit. Its
  EIP-55 form: with \<open>raw\<close> the lower-case hex digits and \<open>hash\<close> the Keccak-256 of the
  ASCII bytes of \<open>raw\<close>, every letter of \<open>raw\<close> at a position whose nibble of \<open>hash\<close> is
  at least 8 is put in upper case.
\<close>

definition isHexDigit :: "char \<Rightarrow> bool" where
  "isHexDigit c = (c \<in> set ''0123456789abcdefABCDEF'')"

definition addressShape :: "string \<Rightarrow> bool" where
  "addressShape s =
     (take 2 s = ''0x'' \<and> length (drop 2 s) = 40 \<and> list_all isHexDigit (drop 2 s))"

definition mixedCase :: "string \<Rightarrow> bool" where
  "mixedCase s =
     ((\<exists>c \<in> set (drop 2 s). c \<in> set ''abcdef'') \<and> (\<exists>c \<in> set (drop 2 s). c \<in> set ''ABCDEF''))"

definition nibble :: "byte list \<Rightarrow> nat \<Rightarrow> nat" where
  "nibble hash i =
     (if even i then unat (hash ! (i div 2)) div 16 else unat (hash ! (i div 2)) mod 16)"

definition lowerHex :: "char \<Rightarrow> char" where
  "lowerHex c =
     (if c = CHR ''A'' then CHR ''a'' else if c = CHR ''B'' then CHR ''b''
      else if c = CHR ''C'' then CHR ''c'' else if c = CHR ''D'' then CHR ''d''
      else if c = CHR ''E'' then CHR ''e'' else if c = CHR ''F'' then CHR ''f'' else c)"

definition upperHex :: "char \<Rightarrow> char" where
  "upperHex c =
     (if c = CHR ''a'' then CHR ''A'' else if c = CHR ''b'' then CHR ''B''
      else if c = CHR ''c'' then CHR ''C'' else if c = CHR ''d'' then CHR ''D''
      else if c = CHR ''e'' then CHR ''E'' else if c = CHR ''f'' then CHR ''F'' else c)"

definition eip55 :: "(byte list \<Rightarrow> byte list) \<Rightarrow> string \<Rightarrow> string" where
  "eip55 Keccak256Hash s =
     (let raw = map lowerHex (drop 2 s);
          hash = Keccak256Hash (bytesOf raw)
      in ''0x'' @ map (\<lambda>i. if raw ! i \<in> set ''abcdef'' \<and> nibble hash i \<ge> 8
                            then upperHex (raw ! i) else raw ! i) [0..<length raw])"

text \<open>
  One step of the loop of \<open>toChecksumAddress\<close>: the byte it appends for the byte \<open>c\<close> at
  index \<open>j\<close>.
\<close>

definition checksumChar :: "string \<Rightarrow> nat \<Rightarrow> char \<Rightarrow> char" where
  "checksumChar hashHex j c =
     (if inRange (CHR ''0'') (CHR ''9'') c then c
      else if (of_char (hashHex ! j) :: nat) \<ge> of_char (CHR ''8'') then toUpperChar c else c)"

subsection \<open>Base58\<close>

text \<open>
  Modelled from the spec: the Base58 libraries (github.com/mr-tron/base58 for Solana,
  btcutil/base58 for TRON) are not among the sources. Base58 is the positional
  encoding of a byte string over the 58-character Bitcoin alphabet: the bytes are
  read as a big-endian number written in base 58 without leading zero digits, and
  every leading zero byte is kept as one leading character \<open>1\<close>; decoding goes the
  other way and fails on a character outside the alphabet.

  \<open>valueOf b\<close> is the value of a big-endian digit list in base \<open>b\<close>, \<open>digitsOf b\<close>
  the digit list of a number without leading zeros (empty for 0), \<open>zcount z\<close> the
  number of leading elements equal to \<open>z\<close>.
\<close>

definition valueOf :: "nat \<Rightarrow> nat list \<Rightarrow> nat" where
  "valueOf b ds = foldl (\<lambda>v d. v * b + d) 0 ds"

function digitsOf :: "nat \<Rightarrow> nat \<Rightarrow> nat list" where
  "digitsOf b n = (if n = 0 \<or> b < 2 then [] else digitsOf b (n div b) @ [n mod b])"
  by pat_completeness auto
termination
  by (relation "measure snd") auto

declare digitsOf.simps [simp del]

text \<open>A digit list is canonical when its digits are below the base and the first is not 0.\<close>

definition canonical :: "nat \<Rightarrow> nat list \<Rightarrow> bool" where
  "canonical b ds = ((\<forall>d \<in> set ds. d < b) \<and> (ds = [] \<or> hd ds \<noteq> 0))"

definition alphabet :: string where
  "alphabet = ''123456789ABCDEFGHJKLMNPQRSTUVWXYZabcdefghijkmnopqrstuvwxyz''"

fun indexOf :: "char \<Rightarrow> string \<Rightarrow> nat option" where
  "indexOf c [] = None"
| "indexOf c (x # xs) = (if c = x then Some 0 else map_option Suc (indexOf c xs))"

definition zcount :: "'a \<Rightarrow> 'a list \<Rightarrow> nat" where
  "zcount z xs = length (takeWhile (\<lambda>x. x = z) xs)"

definition encode58 :: "byte list \<Rightarrow> string" where
  "encode58 bin =
     replicate (zcount 0 bin) (CHR ''1'')
     @ map (\<lambda>d. alphabet ! d) (digitsOf 58 (valueOf 256 (map unat bin)))"

definition decode58 :: "string \<Rightarrow> byte list option" where
  "decode58 str =
     (if list_all (\<lambda>c. indexOf c alphabet \<noteq> None) str
      then Some (replicate (zcount (CHR ''1'') str) 0
                 @ map of_nat (digitsOf 256 (valueOf 58 (map (\<lambda>c. the (indexOf c alphabet)) str))))
      else None)"

text \<open>
  The decoder of mr-tron/base58 returns an error for the empty string and for a
  character that is not a Base58 digit; the decoder of btcutil/base58 returns the
  empty byte string for an invalid character.
\<close>

datatype base58_error = ZeroLengthString | InvalidBase58Digit

definition base58_Encode :: "byte list \<Rightarrow> string" where
  "base58_Encode bin = encode58 bin"

definition base58_Decode :: "string \<Rightarrow> base58_error + byte list" where
  "base58_Decode str =
     (if str = [] then Inl ZeroLengthString
      else (case decode58 str of None \<Rightarrow> Inl InvalidBase58Digit | Some b \<Rightarrow> Inr b))"

definition btcutil_base58_Decode :: "string \<Rightarrow> byte list" where
  "btcutil_base58_Decode b = (case decode58 b of None \<Rightarrow> [] | Some val \<Rightarrow> val)"

subsection \<open>internal/solana: addresses\<close>

text \<open>\<open>SolanaCoin.ValidateAddress\<close> and \<open>SolanaCoin.AddressFromPublicKey\<close>.\<close>

definition SolanaCoin_ValidateAddress :: "string \<Rightarrow> bool" where
  "SolanaCoin_ValidateAddress address =
     (case base58_Decode address of
        Inl err \<Rightarrow> False
      | Inr decoded \<Rightarrow> length decoded = 32)"

definition AddressFromPublicKey :: "byte list \<Rightarrow> string" where
  "AddressFromPublicKey publicKey = base58_Encode publicKey"

subsection \<open>Byte slices in a store\<close>

text \<open>
  A \<open>[]byte\<close> is a view of a backing array, and two slices of one array alias: a write
  through one is seen through the other. Where that matters the model keeps the
  arrays in a store and a slice is the reference of its array (every slice of the
  account derivation spans a whole array). \<open>alloc\<close> makes a new array, \<open>load\<close> reads
  one, \<open>fill\<close> is the loop \<open>for i := range data { data[i] = pattern }\<close>, and
  \<open>copy\<close> gives the contents of \<open>dst\<close> after the built-in \<open>copy(dst, src)\<close>.
\<close>

type_synonym ref = nat

record store =
  arrays :: "ref \<Rightarrow> byte list"
  fresh :: ref

definition alloc :: "byte list \<Rightarrow> store \<Rightarrow> ref \<times> store" where
  "alloc bs s = (fresh s, s\<lparr>arrays := (arrays s)(fresh s := bs), fresh := Suc (fresh s)\<rparr>)"

definition load :: "store \<Rightarrow> ref \<Rightarrow> byte list" where
  "load s r = arrays s r"

definition fill :: "ref \<Rightarrow> byte \<Rightarrow> store \<Rightarrow> store" where
  "fill r pattern s = s\<lparr>arrays := (arrays s)(r := map (\<lambda>_. pattern) (arrays s r))\<rparr>"

definition copy :: "'a list \<Rightarrow> 'a list \<Rightarrow> 'a list" where
  "copy dst src = take (length dst) src @ drop (length src) dst"

subsection \<open>internal/crypto: SecureZeroMemory\<close>

text \<open>
  Three passes of zeros, then the patterns \<open>0x00, 0xFF, 0xAA, 0x55, 0x00\<close> written over
  the same memory (the garbage collection it triggers changes no value).
\<close>

definition SecureZeroMemory :: "ref \<Rightarrow> store \<Rightarrow> store" where
  "SecureZeroMemory data s =
     (if length (load s data) = 0 then s
      else (let s = fill data 0 (fill data 0 (fill data 0 s))
            in if length (load s data) > 0
               then foldl (\<lambda>s pattern. fill data pattern s) s [0x00, 0xFF, 0xAA, 0x55, 0x00]
               else s))"

subsection \<open>pkg/types: Account\<close>

text \<open>The two byte slices of an account are references into the store.\<close>

record Account =
  Path :: string
  PrivateKey :: ref
  PublicKey :: ref
  Address :: string
  Symbol :: string
  CreatedAt :: nat

subsection \<open>The cryptographic libraries\<close>

text \<open>
  The functions of the third-party libraries are parameters of the derivation, kept
  in one record: of go-bip32 (\<open>NewMasterKey\<close>, \<open>NewChildKey\<close> and the field \<open>Key\<close> of a
  key, with \<open>None\<close> for an error), of go-ethereum (\<open>ToECDSA\<close>, \<open>FromECDSAPub\<close>,
  \<open>Keccak256\<close>, and \<open>AddressHex\<close> for \<open>common.Address.Hex\<close>), of btcec and btcutil
  (\<open>PrivKeyFromBytes\<close>, \<open>SerializeCompressed\<close> of its public key, \<open>Serialize\<close>,
  \<open>Hash160\<close>, and \<open>CheckEncode\<close> for the encoding of a public-key hash with a version
  byte), \<open>Sum256\<close> of crypto/sha256, and the clock \<open>Now\<close>.
\<close>

record ('k, 'p, 'b) crypto_lib =
  NewMasterKey :: "byte list \<Rightarrow> 'k option"
  NewChildKey :: "'k \<Rightarrow> uint32 \<Rightarrow> 'k option"
  Key :: "'k \<Rightarrow> byte list"
  ToECDSA :: "byte list \<Rightarrow> 'p option"
  FromECDSAPub :: "'p \<Rightarrow> byte list"
  Keccak256 :: "byte list \<Rightarrow> byte list"
  AddressHex :: "byte list \<Rightarrow> string"
  PrivKeyFromBytes :: "byte list \<Rightarrow> 'b"
  SerializeCompressed :: "'b \<Rightarrow> byte list"
  Serialize :: "'b \<Rightarrow> byte list"
  Hash160 :: "byte list \<Rightarrow> byte list"
  CheckEncode :: "byte list \<Rightarrow> byte \<Rightarrow> string"
  Sum256 :: "byte list \<Rightarrow> byte list"
  Now :: nat

subsection \<open>internal/crypto: DeriveKey\<close>

datatype derive_error =
    InvalidDerivationPath path_error
  | MasterKeyFailed
  | PurposeKeyFailed
  | CoinTypeKeyFailed
  | AccountKeyFailed
  | ChangeKeyFailed
  | IndexKeyFailed

definition FirstHardenedChild :: uint32 where
  "FirstHardenedChild = 0x80000000"

definition DeriveKey :: "('k, 'p, 'b) crypto_lib \<Rightarrow> byte list \<Rightarrow> string \<Rightarrow> derive_error + 'k" where
  "DeriveKey L seed path =
     (case ParseDerivationPath path of
        Inl err \<Rightarrow> Inl (InvalidDerivationPath err)
      | Inr derivePath \<Rightarrow>
     (case NewMasterKey L seed of
        None \<Rightarrow> Inl MasterKeyFailed
      | Some masterKey \<Rightarrow>
     (case NewChildKey L masterKey (Purpose derivePath + FirstHardenedChild) of
        None \<Rightarrow> Inl PurposeKeyFailed
      | Some currentKey \<Rightarrow>
     (case NewChildKey L currentKey (CoinType derivePath + FirstHardenedChild) of
        None \<Rightarrow> Inl CoinTypeKeyFailed
      | Some currentKey \<Rightarrow>
     (case NewChildKey L currentKey (Account derivePath + FirstHardenedChild) of
        None \<Rightarrow> Inl AccountKeyFailed
      | Some currentKey \<Rightarrow>
     (case NewChildKey L currentKey (Change derivePath) of
        None \<Rightarrow> Inl ChangeKeyFailed
      | Some currentKey \<Rightarrow>
     (case NewChildKey L currentKey (Index derivePath) of
        None \<Rightarrow> Inl IndexKeyFailed
      | Some finalKey \<Rightarrow> Inr finalKey)))))))"

subsection \<open>The address of a public key\<close>

text \<open>
  \<open>EthereumCoin.publicKeyToAddress\<close> (\<open>None\<close> is a panic of \<open>toChecksumAddress\<close>),
  \<open>TronCoin.publicKeyToAddress\<close> with \<open>doubleSHA256\<close>, and
  \<open>BitcoinCoin.publicKeyToAddress\<close> (\<open>None\<close> is the error of
  \<open>NewAddressPubKeyHash\<close> for a hash that is not 20 bytes long).
  \<open>common.BytesToAddress\<close> keeps the last 20 bytes and pads a shorter input with zeros
  on the left.
\<close>

definition stripUncompressedPrefix :: "byte list \<Rightarrow> byte list" where
  "stripUncompressedPrefix publicKeyBytes =
     (if length publicKeyBytes = 65 \<and> hd publicKeyBytes = 0x04
      then drop 1 publicKeyBytes else publicKeyBytes)"

definition BytesToAddress :: "byte list \<Rightarrow> byte list" where
  "BytesToAddress b =
     (if length b > 20 then drop (length b - 20) b else replicate (20 - length b) 0 @ b)"

definition EthereumCoin_publicKeyToAddress ::
    "('k, 'p, 'b) crypto_lib \<Rightarrow> byte list \<Rightarrow> string option" where
  "EthereumCoin_publicKeyToAddress L publicKeyBytes =
     (let publicKeyBytes = stripUncompressedPrefix publicKeyBytes;
          hash = Keccak256 L publicKeyBytes;
          address = BytesToAddress (drop 12 hash)
      in toChecksumAddress (Keccak256 L) (AddressHex L address))"

definition doubleSHA256 :: "(byte list \<Rightarrow> byte list) \<Rightarrow> byte list \<Rightarrow> byte list" where
  "doubleSHA256 sum256 data = sum256 (sum256 data)"

definition withChecksum :: "(byte list \<Rightarrow> byte list) \<Rightarrow> byte list \<Rightarrow> byte list" where
  "withChecksum sum256 tronAddressBytes =
     (let checksum = doubleSHA256 sum256 tronAddressBytes;
          addressWithChecksum = replicate 25 0;
          addressWithChecksum =
            copy (take 21 addressWithChecksum) tronAddressBytes @ drop 21 addressWithChecksum;
          addressWithChecksum =
            take 21 addressWithChecksum @ copy (drop 21 addressWithChecksum) (take 4 checksum)
      in addressWithChecksum)"

definition tronPrefixed :: "byte list \<Rightarrow> byte list" where
  "tronPrefixed addressBytes =
     (let tronAddressBytes = replicate 21 0;
          tronAddressBytes = tronAddressBytes[0 := 0x41]
      in take 1 tronAddressBytes @ copy (drop 1 tronAddressBytes) addressBytes)"

definition TronCoin_publicKeyToAddress ::
    "('k, 'p, 'b) crypto_lib \<Rightarrow> byte list \<Rightarrow> string" where
  "TronCoin_publicKeyToAddress L publicKeyBytes =
     (let publicKeyBytes = stripUncompressedPrefix publicKeyBytes;
          hash = Keccak256 L publicKeyBytes;
          addressBytes = drop 12 hash
      in encode58 (withChecksum (Sum256 L) (tronPrefixed addressBytes)))"

definition BitcoinCoin_publicKeyToAddress ::
    "('k, 'p, 'b) crypto_lib \<Rightarrow> Coin \<Rightarrow> byte list \<Rightarrow> string option" where
  "BitcoinCoin_publicKeyToAddress L b publicKeyBytes =
     (let pubKeyHash = Hash160 L publicKeyBytes
      in if length pubKeyHash \<noteq> 20 then None
         else Some (CheckEncode L pubKeyHash (coin_PubKeyHashAddrID b)))"

subsection \<open>DeriveAccount\<close>

text \<open>
  The three derivations on secp256k1. The slice \<open>key.Key\<close> of the derived key enters
  the store where the source binds \<open>privateKeyBytes := key.Key\<close>; the account keeps
  slices, and \<open>SecureZeroMemory(privateKeyBytes)\<close> runs after the account is built.
\<close>

datatype account_error =
    DeriveKeyFailed derive_error
  | ECDSAKeyFailed
  | AddressFailed
  | Panic

definition EthereumCoin_DeriveAccount ::
    "('k, 'p, 'b) crypto_lib \<Rightarrow> Coin \<Rightarrow> byte list \<Rightarrow> string \<Rightarrow> store
     \<Rightarrow> account_error + (Account \<times> store)" where
  "EthereumCoin_DeriveAccount L e seed path s =
     (case DeriveKey L seed path of
        Inl err \<Rightarrow> Inl (DeriveKeyFailed err)
      | Inr key \<Rightarrow>
          (let (privateKeyBytes, s) = alloc (Key L key) s
           in case ToECDSA L (load s privateKeyBytes) of
                None \<Rightarrow> Inl ECDSAKeyFailed
              | Some privateKey \<Rightarrow>
                  (let (publicKeyBytes, s) = alloc (FromECDSAPub L privateKey) s
                   in case EthereumCoin_publicKeyToAddress L (load s publicKeyBytes) of
                        None \<Rightarrow> Inl Panic
                      | Some address \<Rightarrow>
                          (let account = \<lparr>Path = path, PrivateKey = privateKeyBytes,
                                 PublicKey = publicKeyBytes, Address = address,
                                 Symbol = coin_symbol e, CreatedAt = Now L\<rparr>;
                               s = SecureZeroMemory privateKeyBytes s
                           in Inr (account, s)))))"

definition TronCoin_DeriveAccount ::
    "('k, 'p, 'b) crypto_lib \<Rightarrow> Coin \<Rightarrow> byte list \<Rightarrow> string \<Rightarrow> store
     \<Rightarrow> account_error + (Account \<times> store)" where
  "TronCoin_DeriveAccount L t seed path s =
     (case DeriveKey L seed path of
        Inl err \<Rightarrow> Inl (DeriveKeyFailed err)
      | Inr key \<Rightarrow>
          (let (privateKeyBytes, s) = alloc (Key L key) s
           in case ToECDSA L (load s privateKeyBytes) of
                None \<Rightarrow> Inl ECDSAKeyFailed
              | Some privateKey \<Rightarrow>
                  (let (publicKeyBytes, s) = alloc (FromECDSAPub L privateKey) s;
                       address = TronCoin_publicKeyToAddress L (load s publicKeyBytes);
                       account = \<lparr>Path = path, PrivateKey = privateKeyBytes,
                                 PublicKey = publicKeyBytes, Address = address,
                                 Symbol = coin_symbol t, CreatedAt = Now L\<rparr>;
                       s = SecureZeroMemory privateKeyBytes s
                   in Inr (account, s))))"

definition BitcoinCoin_DeriveAccount ::
    "('k, 'p, 'b) crypto_lib \<Rightarrow> Coin \<Rightarrow> byte list \<Rightarrow> string \<Rightarrow> store
     \<Rightarrow> account_error + (Account \<times> store)" where
  "BitcoinCoin_DeriveAccount L b seed path s =
     (case DeriveKey L seed path of
        Inl err \<Rightarrow> Inl (DeriveKeyFailed err)
      | Inr key \<Rightarrow>
          (let (privateKeyBytes, s) = alloc (Key L key) s;
               privateKey = PrivKeyFromBytes L (load s privateKeyBytes);
               (publicKeyBytes, s) = alloc (SerializeCompressed L privateKey) s
           in case BitcoinCoin_publicKeyToAddress L b (load s publicKeyBytes) of
                None \<Rightarrow> Inl AddressFailed
              | Some address \<Rightarrow>
                  (let (serialized, s) = alloc (Serialize L privateKey) s;
                       account = \<lparr>Path = path, PrivateKey = serialized,
                                 PublicKey = publicKeyBytes, Address = address,
                                 Symbol = coin_symbol b, CreatedAt = Now L\<rparr>;
                       s = SecureZeroMemory privateKeyBytes s
                   in Inr (account, s))))"

text \<open>
  A library of stand-ins, on which a derivation can be run: keys are byte strings that
  every step hands on unchanged, and the hash functions are constant.
\<close>

definition stubLib :: "(byte list, byte list, byte list) crypto_lib" where
  "stubLib = \<lparr>NewMasterKey = (\<lambda>seed. Some seed), NewChildKey = (\<lambda>k i. Some k), Key = (\<lambda>k. k),
     ToECDSA = (\<lambda>b. Some b), FromECDSAPub = (\<lambda>p. p),
     Keccak256 = (\<lambda>x. [0x0F, 0x0F, 0x0F, 0x0F, 0x0F, 0x0F, 0x0F, 0x0F, 0x0F, 0x0F, 0x0F, 0x0F, 0x0F, 0x0F, 0x0F, 0x0F, 0x0F, 0x0F, 0x0F, 0x0F, 0x0F, 0x0F, 0x0F, 0x0F, 0x0F, 0x0F, 0x0F, 0x0F, 0x0F, 0x0F, 0x0F, 0x0F]),
     AddressHex = (\<lambda>b. ''0x'' @ EncodeToString b), PrivKeyFromBytes = (\<lambda>b. b),
     SerializeCompressed = (\<lambda>p. p), Serialize = (\<lambda>p. p),
     Hash160 = (\<lambda>x. [0, 0, 0, 0, 0, 0, 0, 0, 0, 0, 0, 0, 0, 0, 0, 0, 0, 0, 0, 0]),
     CheckEncode = (\<lambda>h v. EncodeToString (v # h)),
     Sum256 = (\<lambda>x. [0, 0, 0, 0, 0, 0, 0, 0, 0, 0, 0, 0, 0, 0, 0, 0, 0, 0, 0, 0, 0, 0, 0, 0, 0, 0, 0, 0, 0, 0, 0, 0]), Now = 0\<rparr>"

section \<open>Derivation paths: parsing and formatting\<close>

subsection \<open>strconv.ParseUint accepts exactly the valid unsigned 32-bit decimals\<close>

lemma cutoff_val: "unat cutoff = 1844674407370955162"
  by (simp add: cutoff_def)

lemma maxVal_val: "unat maxVal = 4294967295"
  by (simp add: maxVal_def)

lemma p32: "(2::nat) ^ 32 = 4294967296"
  by simp

lemma digitVal_le: "isDigit c \<Longrightarrow> digitVal c \<le> 9"
  by (auto simp: isDigit_def digitVal_def)

lemma unat_accumulate:
  assumes n: "unat (n :: uint64) < 2 ^ 32" and d: "d \<le> 9"
  shows "unat (n * 10 + of_nat d) = unat n * 10 + d"
proof -
  have u10: "unat (n * 10) = unat n * 10"
    using n by (simp add: unat_word_ariths)
  have ud: "unat (of_nat d :: uint64) = d"
    using d by (simp add: unat_of_nat)
  show ?thesis
    using n d by (simp add: unat_word_ariths(1) u10 ud)
qed

lemma ParseUint_loop_step:
  assumes n: "unat n < 2 ^ 32" and d: "isDigit c"
  shows "ParseUint_loop n (c # cs) =
     (if unat n * 10 + digitVal c < 2 ^ 32
      then ParseUint_loop (n * 10 + of_nat (digitVal c)) cs
      else Inl ErrRange)"
proof -
  have d9: "digitVal c \<le> 9" using d by (rule digitVal_le)
  have nc: "\<not> n \<ge> cutoff"
    using n by (simp add: word_le_nat_alt cutoff_val)
  have u10: "unat (n * 10) = unat n * 10"
    using n by (simp add: unat_word_ariths)
  note u1 = unat_accumulate [OF n d9]
  have lt: "\<not> (n * 10 + of_nat (digitVal c) < n * 10)"
    by (simp add: word_less_nat_alt u1 u10)
  have gt: "(n * 10 + of_nat (digitVal c) > maxVal) \<longleftrightarrow> \<not> unat n * 10 + digitVal c < 2 ^ 32"
  proof -
    have "(n * 10 + of_nat (digitVal c) > maxVal) \<longleftrightarrow> unat maxVal < unat n * 10 + digitVal c"
      by (simp only: word_less_nat_alt u1)
    also have "\<dots> \<longleftrightarrow> \<not> unat n * 10 + digitVal c < 2 ^ 32"
      unfolding maxVal_val p32 by linarith
    finally show ?thesis .
  qed
  show ?thesis
    using d nc lt gt by (simp add: Let_def)
qed

lemma decimalFrom_simps [simp]:
  "decimalFrom v [] = v"
  "decimalFrom v (c # cs) = decimalFrom (v * 10 + digitVal c) cs"
  by (simp_all add: decimalFrom_def)

lemma decimalFrom_ge: "v \<le> decimalFrom v s"
proof (induction s arbitrary: v)
  case Nil
  show ?case by simp
next
  case (Cons c cs)
  have "v \<le> v * 10 + digitVal c" by simp
  also have "\<dots> \<le> decimalFrom (v * 10 + digitVal c) cs" by (rule Cons.IH)
  finally show ?case by simp
qed

lemma ParseUint_loop_accepts:
  "unat n < 2 ^ 32 \<Longrightarrow> list_all isDigit s \<Longrightarrow> decimalFrom (unat n) s < 2 ^ 32
   \<Longrightarrow> ParseUint_loop n s = Inr (of_nat (decimalFrom (unat n) s))"
proof (induction s arbitrary: n)
  case Nil
  show ?case by simp
next
  case (Cons c cs)
  from Cons.prems have d: "isDigit c" and ds: "list_all isDigit cs" by simp_all
  have d9: "digitVal c \<le> 9" using d by (rule digitVal_le)
  let ?n1 = "n * 10 + of_nat (digitVal c)"
  have u1: "unat ?n1 = unat n * 10 + digitVal c"
    by (rule unat_accumulate [OF Cons.prems(1) d9])
  have "unat n * 10 + digitVal c \<le> decimalFrom (unat n * 10 + digitVal c) cs"
    by (rule decimalFrom_ge)
  with Cons.prems(3) have small: "unat n * 10 + digitVal c < 2 ^ 32" by simp
  have "ParseUint_loop n (c # cs) = ParseUint_loop ?n1 cs"
    using small by (simp only: ParseUint_loop_step [OF Cons.prems(1) d] if_True)
  also have "\<dots> = Inr (of_nat (decimalFrom (unat ?n1) cs))"
  proof (rule Cons.IH [OF _ ds])
    show "unat ?n1 < 2 ^ 32" using small by (simp only: u1)
    show "decimalFrom (unat ?n1) cs < 2 ^ 32"
      using Cons.prems(3) by (simp only: u1 decimalFrom_simps)
  qed
  finally show ?case by (simp only: u1 decimalFrom_simps)
qed

lemma ParseUint_loop_rejects:
  "unat n < 2 ^ 32 \<Longrightarrow> \<not> (list_all isDigit s \<and> decimalFrom (unat n) s < 2 ^ 32)
   \<Longrightarrow> isl (ParseUint_loop n s)"
proof (induction s arbitrary: n)
  case Nil
  then show ?case by simp
next
  case (Cons c cs)
  show ?case
  proof (cases "isDigit c")
    case False
    then show ?thesis by simp
  next
    case d: True
    have d9: "digitVal c \<le> 9" using d by (rule digitVal_le)
    let ?n1 = "n * 10 + of_nat (digitVal c)"
    have u1: "unat ?n1 = unat n * 10 + digitVal c"
      by (rule unat_accumulate [OF Cons.prems(1) d9])
    show ?thesis
    proof (cases "unat n * 10 + digitVal c < 2 ^ 32")
      case False
      then show ?thesis
        by (simp only: ParseUint_loop_step [OF Cons.prems(1) d] if_False sum.disc)
    next
      case small: True
      have b: "\<not> (list_all isDigit cs \<and> decimalFrom (unat ?n1) cs < 2 ^ 32)"
        using Cons.prems(2) d by (simp only: u1 decimalFrom_simps list.pred_inject) simp
      have a: "unat ?n1 < 2 ^ 32"
        using small by (simp only: u1)
      have "isl (ParseUint_loop ?n1 cs)"
        by (rule Cons.IH [OF a b])
      then show ?thesis
        using small by (simp only: ParseUint_loop_step [OF Cons.prems(1) d] if_True)
    qed
  qed
qed

lemma ParseUint_accepts:
  "validUint32Decimal s \<Longrightarrow> ParseUint s = Inr (of_nat (decimalValue s))"
  using ParseUint_loop_accepts [of 0 s]
  by (simp add: validUint32Decimal_def ParseUint_def decimalValue_def)

lemma ParseUint_rejects:
  "\<not> validUint32Decimal s \<Longrightarrow> isl (ParseUint s)"
  using ParseUint_loop_rejects [of 0 s]
  by (auto simp add: validUint32Decimal_def ParseUint_def decimalValue_def)

lemma HasSuffix_apostrophe: "HasSuffix c [apostrophe] = carriesMarker c"
proof (cases c rule: rev_cases)
  case Nil
  then show ?thesis by (simp add: HasSuffix_def carriesMarker_def)
next
  case (snoc ys y)
  then show ?thesis by (auto simp add: HasSuffix_def carriesMarker_def)
qed

lemma take_length_minus_1: "take (length c - 1) c = butlast c"
  by (simp add: butlast_conv_take)

lemma ucast_of_nat_32:
  assumes "v < 2 ^ 32"
  shows "(ucast (of_nat v :: uint64) :: uint32) = of_nat v"
proof -
  have "v < 2 ^ 64"
    using assms by (rule less_trans) simp
  then have "take_bit 64 v = v"
    by (simp add: take_bit_nat_eq_self_iff)
  then show ?thesis
    by (simp add: unsigned_of_nat)
qed

lemma parsePathComponent_alt:
  "parsePathComponent c h =
     (if h \<and> \<not> carriesMarker c then Inl ShouldBeHardened
      else if \<not> h \<and> carriesMarker c then Inl ShouldNotBeHardened
      else (case ParseUint (numeralOf c) of
              Inl e \<Rightarrow> Inl (InvalidNumber e)
            | Inr val \<Rightarrow> Inr (ucast val)))"
  by (simp only: parsePathComponent_def Let_def HasSuffix_apostrophe numeralOf_def
        take_length_minus_1)

lemma parsePathComponent_accepts:
  assumes "carriesMarker c = h" and "validUint32Decimal (numeralOf c)"
  shows "parsePathComponent c h = Inr (componentValue c)"
proof -
  have v: "decimalValue (numeralOf c) < 2 ^ 32"
    using assms(2) by (simp add: validUint32Decimal_def)
  show ?thesis
    using assms(1) ParseUint_accepts [OF assms(2)] ucast_of_nat_32 [OF v]
    by (auto simp add: parsePathComponent_alt componentValue_def)
qed

lemma parsePathComponent_rejects:
  assumes "\<not> (carriesMarker c = h \<and> validUint32Decimal (numeralOf c))"
  shows "isl (parsePathComponent c h)"
proof (cases "carriesMarker c = h")
  case False
  then show ?thesis
    by (auto simp add: parsePathComponent_alt)
next
  case True
  with assms have "\<not> validUint32Decimal (numeralOf c)" by simp
  then have r: "isl (ParseUint (numeralOf c))" by (rule ParseUint_rejects)
  show ?thesis
    using True r
    by (auto simp add: parsePathComponent_alt split: sum.splits)
qed

lemma parsePathComponent_cases:
  "\<exists>e. parsePathComponent c h =
     (if carriesMarker c = h \<and> validUint32Decimal (numeralOf c)
      then Inr (componentValue c) else Inl e)"
  using parsePathComponent_accepts [of c h] parsePathComponent_rejects [of c h]
  by (cases "parsePathComponent c h") auto

lemma HasPrefix_m: "HasPrefix path ''m/'' = (take 2 path = ''m/'')"
proof -
  have l: "length ''m/'' = 2" by simp
  have "take 2 path = ''m/'' \<Longrightarrow> 2 \<le> length path"
    using length_take [of 2 path] by (simp only: l)
  then show ?thesis
    by (auto simp only: HasPrefix_def l)
qed

lemma length5E:
  assumes "length cs = 5"
  obtains p0 p1 p2 p3 p4 where "cs = [p0, p1, p2, p3, p4]"
  using assms by (auto simp add: length_Suc_conv eval_nat_numeral)

lemma ParseDerivationPath_five:
  assumes pre: "take 2 path = ''m/''" and cs: "components path = [p0, p1, p2, p3, p4]"
  shows "ParseDerivationPath path =
     (case parsePathComponent p0 True of
        Inl e \<Rightarrow> Inl (InvalidPurpose e)
      | Inr purpose \<Rightarrow>
     (case parsePathComponent p1 True of
        Inl e \<Rightarrow> Inl (InvalidCoinType e)
      | Inr coinType \<Rightarrow>
     (case parsePathComponent p2 True of
        Inl e \<Rightarrow> Inl (InvalidAccount e)
      | Inr account \<Rightarrow>
     (case parsePathComponent p3 False of
        Inl e \<Rightarrow> Inl (InvalidChange e)
      | Inr change \<Rightarrow>
     (case parsePathComponent p4 False of
        Inl e \<Rightarrow> Inl (InvalidIndex e)
      | Inr index \<Rightarrow>
          Inr \<lparr>Purpose = purpose, CoinType = coinType, Account = account,
               Change = change, Index = index\<rparr>)))))"
  using pre cs by (simp add: ParseDerivationPath_def HasPrefix_m components_def)

lemma ParseDerivationPath_count:
  assumes "length (components path) \<noteq> 5"
  shows "isl (ParseDerivationPath path)"
  using assms
  by (auto simp add: ParseDerivationPath_def components_def split: list.splits)

lemma ParseDerivationPath_characterisation:
  "(isl (ParseDerivationPath path) \<longleftrightarrow> bip44Invalid path) \<and>
   (\<not> bip44Invalid path \<longrightarrow>
      ParseDerivationPath path = Inr (bip44Path (components path)))"
proof (cases "take 2 path = ''m/''")
  case False
  then show ?thesis
    by (simp add: ParseDerivationPath_def HasPrefix_m bip44Invalid_def)
next
  case pre: True
  show ?thesis
  proof (cases "length (components path) = 5")
    case False
    then show ?thesis
      using ParseDerivationPath_count [of path] by (simp add: bip44Invalid_def)
  next
    case True
    then obtain p0 p1 p2 p3 p4 where cs: "components path = [p0, p1, p2, p3, p4]"
      by (rule length5E)
    obtain e0 where r0: "parsePathComponent p0 True =
         (if carriesMarker p0 = True \<and> validUint32Decimal (numeralOf p0)
          then Inr (componentValue p0) else Inl e0)"
      using parsePathComponent_cases [of p0 True] by blast
    obtain e1 where r1: "parsePathComponent p1 True =
         (if carriesMarker p1 = True \<and> validUint32Decimal (numeralOf p1)
          then Inr (componentValue p1) else Inl e1)"
      using parsePathComponent_cases [of p1 True] by blast
    obtain e2 where r2: "parsePathComponent p2 True =
         (if carriesMarker p2 = True \<and> validUint32Decimal (numeralOf p2)
          then Inr (componentValue p2) else Inl e2)"
      using parsePathComponent_cases [of p2 True] by blast
    obtain e3 where r3: "parsePathComponent p3 False =
         (if carriesMarker p3 = False \<and> validUint32Decimal (numeralOf p3)
          then Inr (componentValue p3) else Inl e3)"
      using parsePathComponent_cases [of p3 False] by blast
    obtain e4 where r4: "parsePathComponent p4 False =
         (if carriesMarker p4 = False \<and> validUint32Decimal (numeralOf p4)
          then Inr (componentValue p4) else Inl e4)"
      using parsePathComponent_cases [of p4 False] by blast
    note r = r0 r1 r2 r3 r4
    show ?thesis
      unfolding ParseDerivationPath_five [OF pre cs] r
      using pre
      by (auto simp add: bip44Invalid_def cs bip44Hardening_def bip44Path_def)
  qed
qed



subsection \<open>Formatting a parsed path\<close>

lemma digitChar_digitVal: "isDigit c \<Longrightarrow> digitChar (digitVal c) = c"
  by (simp add: isDigit_def digitChar_def digitVal_def)

lemma digitVal_digitChar: "d < 10 \<Longrightarrow> digitVal (digitChar d) = d"
  by (simp add: digitChar_def digitVal_def)

lemma isDigit_digitChar: "d < 10 \<Longrightarrow> isDigit (digitChar d)"
  by (simp add: digitChar_def isDigit_def)

lemma digitChar_0: "digitChar 0 = CHR ''0''"
  by (simp only: digitChar_def add_0_right char_of_char)

lemma digitVal_0: "digitVal (CHR ''0'') = 0"
  by (simp add: digitVal_def)

lemma digitChar_zero_iff: "d < 10 \<Longrightarrow> digitChar d = CHR ''0'' \<longleftrightarrow> d = 0"
  using digitVal_digitChar [of d] digitVal_0 digitChar_0 by auto

lemma formatUint_nonempty: "formatUint n \<noteq> []"
  by (subst formatUint.simps) simp

lemma formatUint_digits: "list_all isDigit (formatUint n)"
proof (induction n rule: formatUint.induct)
  case (1 n)
  show ?case
  proof (cases "n < 10")
    case True
    then show ?thesis
      by (subst formatUint.simps) (simp add: isDigit_digitChar)
  next
    case False
    then show ?thesis
      using "1.IH" by (subst formatUint.simps) (simp add: isDigit_digitChar)
  qed
qed

lemma formatUint_hd: "0 < n \<Longrightarrow> hd (formatUint n) \<noteq> CHR ''0''"
proof (induction n rule: formatUint.induct)
  case (1 n)
  show ?case
  proof (cases "n < 10")
    case True
    then show ?thesis
      using "1.prems" by (subst formatUint.simps) (simp add: digitChar_zero_iff)
  next
    case False
    then have "0 < n div 10" by simp
    with False "1.IH" have "hd (formatUint (n div 10)) \<noteq> CHR ''0''" by simp
    then show ?thesis
      using False formatUint_nonempty [of "n div 10"]
      by (subst formatUint.simps) simp
  qed
qed

lemma formatUint_canonical: "canonicalNumeral (formatUint n)"
proof (cases "n = 0")
  case True
  then show ?thesis
    by (subst formatUint.simps) (simp add: canonicalNumeral_def digitChar_0)
next
  case False
  then have "hd (formatUint n) \<noteq> CHR ''0''" by (simp add: formatUint_hd)
  then show ?thesis
    using formatUint_nonempty [of n]
    by (cases "formatUint n") (simp_all add: canonicalNumeral_def)
qed

lemma decimalFrom_append:
  "decimalFrom v (xs @ ys) = decimalFrom (decimalFrom v xs) ys"
  by (simp add: decimalFrom_def)

lemma decimalValue_snoc:
  "decimalValue (ys @ [y]) = decimalValue ys * 10 + digitVal y"
  by (simp add: decimalValue_def decimalFrom_append)

lemma decimalValue_pos:
  assumes "s \<noteq> []" and "list_all isDigit s" and "hd s \<noteq> CHR ''0''"
  shows "0 < decimalValue s"
proof (cases s)
  case Nil
  with assms show ?thesis by simp
next
  case (Cons c cs)
  with assms have d: "isDigit c" and nz: "c \<noteq> CHR ''0''" by simp_all
  have "digitVal c \<noteq> 0"
  proof
    assume "digitVal c = 0"
    then have "digitChar (digitVal c) = CHR ''0''" by (simp add: digitChar_0)
    with d nz show False by (simp add: digitChar_digitVal)
  qed
  moreover have "digitVal c \<le> decimalFrom (digitVal c) cs" by (rule decimalFrom_ge)
  ultimately show ?thesis
    using Cons by (simp add: decimalValue_def)
qed

lemma formatUint_decimalValue:
  "s \<noteq> [] \<Longrightarrow> list_all isDigit s \<Longrightarrow> canonicalNumeral s
   \<Longrightarrow> formatUint (decimalValue s) = s"
proof (induction s rule: rev_induct)
  case Nil
  then show ?case by simp
next
  case (snoc y ys)
  from snoc.prems have dy: "isDigit y" and dys: "list_all isDigit ys" by simp_all
  have y9: "digitVal y \<le> 9" using dy by (rule digitVal_le)
  show ?case
  proof (cases "ys = []")
    case True
    then show ?thesis
      using y9 dy
      by (subst formatUint.simps) (simp add: decimalValue_def digitChar_digitVal)
  next
    case False
    then obtain c cs where ys: "ys = c # cs" by (cases ys) auto
    with snoc.prems(3) have hd: "hd ys \<noteq> CHR ''0''"
      by (auto simp add: canonicalNumeral_def)
    then have can: "canonicalNumeral ys"
      using ys by (simp add: canonicalNumeral_def)
    have pos: "0 < decimalValue ys"
      by (rule decimalValue_pos [OF False dys hd])
    have ih: "formatUint (decimalValue ys) = ys"
      by (rule snoc.IH [OF False dys can])
    have v: "decimalValue (ys @ [y]) = decimalValue ys * 10 + digitVal y"
      by (rule decimalValue_snoc)
    have "\<not> decimalValue ys * 10 + digitVal y < 10"
      using pos by simp
    moreover have "(decimalValue ys * 10 + digitVal y) div 10 = decimalValue ys"
      using y9 by simp
    moreover have "(decimalValue ys * 10 + digitVal y) mod 10 = digitVal y"
      using y9 by simp
    ultimately show ?thesis
      unfolding v using ih dy
      by (subst formatUint.simps) (simp add: digitChar_digitVal)
  qed
qed

lemma formatUint_decimalValue_iff:
  assumes "s \<noteq> []" and "list_all isDigit s"
  shows "formatUint (decimalValue s) = s \<longleftrightarrow> canonicalNumeral s"
  using formatUint_decimalValue [OF assms] formatUint_canonical [of "decimalValue s"]
  by auto

lemma Split_nonempty: "Split s sep \<noteq> []"
  by (induction s) (auto split: list.splits)

lemma Split_Cons_sep: "Split (sep # cs) sep = [] # Split cs sep"
  by simp

lemma Split_Cons_other:
  "c \<noteq> sep \<Longrightarrow> Split (c # cs) sep = (c # hd (Split cs sep)) # tl (Split cs sep)"
  using Split_nonempty [of cs sep] by (cases "Split cs sep") simp_all

lemma Split_append_sep:
  "sep \<notin> set a \<Longrightarrow> Split (a @ sep # rest) sep = a # Split rest sep"
  by (induction a) auto

lemma Split_no_sep: "sep \<notin> set a \<Longrightarrow> Split a sep = [a]"
  by (induction a) auto

lemma Join_Split: "Join (Split s sep) sep = s"
proof (induction s)
  case Nil
  show ?case by simp
next
  case (Cons c cs)
  obtain p ps where sp: "Split cs sep = p # ps"
    using Split_nonempty [of cs sep] by (cases "Split cs sep") auto
  show ?case
  proof (cases "c = sep")
    case True
    then show ?thesis using Cons sp by simp
  next
    case False
    then show ?thesis using Cons sp by (cases ps) simp_all
  qed
qed

lemma isDigit_not_slash: "isDigit c \<Longrightarrow> c \<noteq> CHR ''/''"
  by (auto simp add: isDigit_def)

lemma isDigit_not_apostrophe: "isDigit c \<Longrightarrow> c \<noteq> apostrophe"
  by (auto simp add: isDigit_def apostrophe_def)

lemma digits_no_slash: "list_all isDigit s \<Longrightarrow> CHR ''/'' \<notin> set s"
  by (auto simp add: list_all_iff dest: isDigit_not_slash)

lemma apostrophe_not_slash: "apostrophe \<noteq> CHR ''/''"
  by (simp add: apostrophe_def)

lemma carriesMarker_numeralOf:
  "carriesMarker c \<Longrightarrow> c = numeralOf c @ [apostrophe]"
  using append_butlast_last_id [of c] by (auto simp add: carriesMarker_def numeralOf_def)

lemma not_carriesMarker_numeralOf:
  "\<not> carriesMarker c \<Longrightarrow> c = numeralOf c"
  by (simp add: numeralOf_def)

lemma unat_componentValue:
  "validUint32Decimal (numeralOf c) \<Longrightarrow> unat (componentValue c) = decimalValue (numeralOf c)"
  by (simp add: validUint32Decimal_def componentValue_def unat_of_nat)

lemma path_of_components:
  assumes "take 2 path = ''m/''"
  shows "path = ''m/'' @ Join (components path) (CHR ''/'')"
proof -
  have "path = take 2 path @ drop 2 path" by simp
  then show ?thesis
    using assms by (simp only: components_def Join_Split)
qed

lemma components_bip44:
  assumes a: "CHR ''/'' \<notin> set a" and b: "CHR ''/'' \<notin> set b" and c: "CHR ''/'' \<notin> set c"
    and d: "CHR ''/'' \<notin> set d" and e: "CHR ''/'' \<notin> set e"
  shows "components (''m/'' @ a @ ''/'' @ b @ ''/'' @ c @ ''/'' @ d @ ''/'' @ e) = [a, b, c, d, e]"
proof -
  have "components (''m/'' @ a @ ''/'' @ b @ ''/'' @ c @ ''/'' @ d @ ''/'' @ e)
      = Split (a @ CHR ''/'' # b @ CHR ''/'' # c @ CHR ''/'' # d @ CHR ''/'' # e) (CHR ''/'')"
    by (simp add: components_def)
  also have "\<dots> = [a, b, c, d, e]"
    by (simp only: Split_append_sep [OF a] Split_append_sep [OF b] Split_append_sep [OF c]
          Split_append_sep [OF d] Split_no_sep [OF e])
  finally show ?thesis .
qed

lemma accepted_path_shape:
  assumes "ParseDerivationPath s = Inr dp"
  obtains n0 n1 n2 n3 n4 where
    "s = ''m/'' @ (n0 @ [apostrophe]) @ ''/'' @ (n1 @ [apostrophe]) @ ''/''
          @ (n2 @ [apostrophe]) @ ''/'' @ n3 @ ''/'' @ n4"
    "components s = [n0 @ [apostrophe], n1 @ [apostrophe], n2 @ [apostrophe], n3, n4]"
    "map numeralOf (components s) = [n0, n1, n2, n3, n4]"
    "list_all validUint32Decimal [n0, n1, n2, n3, n4]"
    "dp = \<lparr>Purpose = of_nat (decimalValue n0), CoinType = of_nat (decimalValue n1),
           Account = of_nat (decimalValue n2), Change = of_nat (decimalValue n3),
           Index = of_nat (decimalValue n4)\<rparr>"
proof -
  from assms ParseDerivationPath_characterisation [of s]
  have ninv: "\<not> bip44Invalid s" and dp: "dp = bip44Path (components s)"
    by auto
  from ninv have len: "length (components s) = 5" and pre: "take 2 s = ''m/''"
    by (auto simp add: bip44Invalid_def)
  from len obtain p0 p1 p2 p3 p4 where cs: "components s = [p0, p1, p2, p3, p4]"
    by (rule length5E)
  from ninv cs have m: "carriesMarker p0" "carriesMarker p1" "carriesMarker p2"
      "\<not> carriesMarker p3" "\<not> carriesMarker p4"
    and v: "validUint32Decimal (numeralOf p0)" "validUint32Decimal (numeralOf p1)"
      "validUint32Decimal (numeralOf p2)" "validUint32Decimal (numeralOf p3)"
      "validUint32Decimal (numeralOf p4)"
    by (auto simp add: bip44Invalid_def bip44Hardening_def)
  have p: "p0 = numeralOf p0 @ [apostrophe]" "p1 = numeralOf p1 @ [apostrophe]"
      "p2 = numeralOf p2 @ [apostrophe]" "p3 = numeralOf p3" "p4 = numeralOf p4"
    using m by (simp_all add: carriesMarker_numeralOf not_carriesMarker_numeralOf)
  have s: "s = ''m/'' @ p0 @ ''/'' @ p1 @ ''/'' @ p2 @ ''/'' @ p3 @ ''/'' @ p4"
    using path_of_components [OF pre] by (simp add: cs)
  show ?thesis
  proof (rule that [of "numeralOf p0" "numeralOf p1" "numeralOf p2" "numeralOf p3" "numeralOf p4"])
    show "s = ''m/'' @ (numeralOf p0 @ [apostrophe]) @ ''/'' @ (numeralOf p1 @ [apostrophe]) @ ''/''
          @ (numeralOf p2 @ [apostrophe]) @ ''/'' @ numeralOf p3 @ ''/'' @ numeralOf p4"
      using s p by simp
    show "components s = [numeralOf p0 @ [apostrophe], numeralOf p1 @ [apostrophe],
        numeralOf p2 @ [apostrophe], numeralOf p3, numeralOf p4]"
      using cs p by simp
    show "map numeralOf (components s) =
        [numeralOf p0, numeralOf p1, numeralOf p2, numeralOf p3, numeralOf p4]"
      by (simp add: cs)
    show "list_all validUint32Decimal
        [numeralOf p0, numeralOf p1, numeralOf p2, numeralOf p3, numeralOf p4]"
      using v by simp
    show "dp = \<lparr>Purpose = of_nat (decimalValue (numeralOf p0)),
           CoinType = of_nat (decimalValue (numeralOf p1)),
           Account = of_nat (decimalValue (numeralOf p2)),
           Change = of_nat (decimalValue (numeralOf p3)),
           Index = of_nat (decimalValue (numeralOf p4))\<rparr>"
      by (simp add: dp cs bip44Path_def componentValue_def)
  qed
qed

lemma unat_of_decimalValue:
  "validUint32Decimal n \<Longrightarrow> unat (of_nat (decimalValue n) :: uint32) = decimalValue n"
  by (simp add: validUint32Decimal_def unat_of_nat)

lemma formatUint_no_slash: "CHR ''/'' \<notin> set (formatUint n @ [apostrophe])"
  "CHR ''/'' \<notin> set (formatUint n)"
  using digits_no_slash [OF formatUint_digits [of n]] apostrophe_not_slash by auto

text \<open>
  How far formatting inverts parsing: for an accepted path string, formatting the
  parsed path gives the string back exactly when no numeral in it has a superfluous
  leading zero.
\<close>

lemma String_ParseDerivationPath_iff:
  assumes "ParseDerivationPath s = Inr dp"
  shows "String dp = s \<longleftrightarrow> list_all canonicalNumeral (map numeralOf (components s))"
proof -
  from assms obtain n0 n1 n2 n3 n4 where
    s: "s = ''m/'' @ (n0 @ [apostrophe]) @ ''/'' @ (n1 @ [apostrophe]) @ ''/''
          @ (n2 @ [apostrophe]) @ ''/'' @ n3 @ ''/'' @ n4"
    and cs: "components s = [n0 @ [apostrophe], n1 @ [apostrophe], n2 @ [apostrophe], n3, n4]"
    and ns: "map numeralOf (components s) = [n0, n1, n2, n3, n4]"
    and v: "list_all validUint32Decimal [n0, n1, n2, n3, n4]"
    and dp: "dp = \<lparr>Purpose = of_nat (decimalValue n0), CoinType = of_nat (decimalValue n1),
           Account = of_nat (decimalValue n2), Change = of_nat (decimalValue n3),
           Index = of_nat (decimalValue n4)\<rparr>"
    by (rule accepted_path_shape)
  define f where "f = (\<lambda>n. formatUint (decimalValue n))"
  have str: "String dp = ''m/'' @ (f n0 @ [apostrophe]) @ ''/'' @ (f n1 @ [apostrophe]) @ ''/''
          @ (f n2 @ [apostrophe]) @ ''/'' @ f n3 @ ''/'' @ f n4"
    using v by (simp add: String_def dp unat_of_decimalValue f_def)
  have fcs: "components (String dp) = [f n0 @ [apostrophe], f n1 @ [apostrophe], f n2 @ [apostrophe], f n3, f n4]"
    unfolding str f_def by (rule components_bip44) (rule formatUint_no_slash)+
  have iff: "f n = n \<longleftrightarrow> canonicalNumeral n" if "validUint32Decimal n" for n
    using that unfolding f_def
    by (intro formatUint_decimalValue_iff) (simp_all add: validUint32Decimal_def)
  have all: "list_all canonicalNumeral [n0, n1, n2, n3, n4]
      \<longleftrightarrow> f n0 = n0 \<and> f n1 = n1 \<and> f n2 = n2 \<and> f n3 = n3 \<and> f n4 = n4"
    using v by (simp add: iff)
  show ?thesis
  proof
    assume "String dp = s"
    then have "components (String dp) = components s" by simp
    then show "list_all canonicalNumeral (map numeralOf (components s))"
      unfolding ns all by (simp add: fcs cs)
  next
    assume "list_all canonicalNumeral (map numeralOf (components s))"
    then have "f n0 = n0 \<and> f n1 = n1 \<and> f n2 = n2 \<and> f n3 = n3 \<and> f n4 = n4"
      unfolding ns all .
    then have "String dp = ''m/'' @ (n0 @ [apostrophe]) @ ''/'' @ (n1 @ [apostrophe]) @ ''/''
          @ (n2 @ [apostrophe]) @ ''/'' @ n3 @ ''/'' @ n4"
      unfolding str by simp
    then show "String dp = s"
      by (simp only: s [symmetric])
  qed
qed

text \<open>
  C5 (the code at the failing input). The round-trip law asks that formatting the
  parsed path reproduces every accepted path string. The parser accepts the path
  \<open>m/044'/0'/0'/0/0\<close>, whose purpose has a leading zero, and parses the purpose 44;
  formatting the result gives \<open>m/44'/0'/0'/0/0\<close>, which is not the string that was
  parsed.
\<close>

theorem String_ParseDerivationPath_leading_zero:
  "ParseDerivationPath ''m/044'/0'/0'/0/0'' =
     Inr \<lparr>Purpose = 44, CoinType = 0, Account = 0, Change = 0, Index = 0\<rparr> \<and>
   String \<lparr>Purpose = 44, CoinType = 0, Account = 0, Change = 0, Index = 0\<rparr> = ''m/44'/0'/0'/0/0'' \<and>
   ''m/44'/0'/0'/0/0'' \<noteq> ''m/044'/0'/0'/0/0''"
  by (simp add: ParseDerivationPath_def HasPrefix_def parsePathComponent_def HasSuffix_def
        apostrophe_def ParseUint_def isDigit_def digitVal_def cutoff_def maxVal_def
        String_def formatUint.simps digitChar_def char_of_eq_iff)

section \<open>Coin lookup\<close>

text \<open>
  C3 (the code at the failing input). The claim asks that the lookup succeeds for SOL,
  as the documentation of the repository promises (\<open>anvil derive --coin SOL\<close>). The
  lookup of the code knows exactly BTC, ETH, DOGE, BNB and TRX: for SOL it returns
  \<open>nil\<close>, so that deriving a SOL account fails as an unsupported coin, and the Solana
  coin is not among the coins of a generated wallet either.
\<close>

theorem getCoinInstance_SOL:
  "getCoinInstance ''SOL'' = None \<and>
   NewSolana \<notin> set walletCoins \<and>
   (\<forall>s. getCoinInstance s \<noteq> None \<longleftrightarrow> s \<in> {''BTC'', ''ETH'', ''DOGE'', ''BNB'', ''TRX''})"
  by (simp add: getCoinInstance_def walletCoins_def NewSolana_def NewBitcoin_def
        NewEthereum_def NewDogecoin_def NewBinanceCoin_def NewTron_def)

section \<open>Ethereum addresses\<close>

subsection \<open>Character classes\<close>

lemma inRange_upper_hex: "inRange (CHR ''A'') (CHR ''F'') c \<longleftrightarrow> c \<in> set ''ABCDEF''"
proof
  assume "inRange (CHR ''A'') (CHR ''F'') c"
  then have "(of_char c :: nat) \<in> {65, 66, 67, 68, 69, 70}"
    by (auto simp add: inRange_def)
  then have "c \<in> char_of ` {65 :: nat, 66, 67, 68, 69, 70}"
    by (metis char_of_char imageI)
  then show "c \<in> set ''ABCDEF''"
    by (auto simp add: char_of_eq_iff)
next
  assume "c \<in> set ''ABCDEF''"
  then show "inRange (CHR ''A'') (CHR ''F'') c"
    by (auto simp add: inRange_def)
qed

lemma inRange_lower_hex: "inRange (CHR ''a'') (CHR ''f'') c \<longleftrightarrow> c \<in> set ''abcdef''"
proof
  assume "inRange (CHR ''a'') (CHR ''f'') c"
  then have "(of_char c :: nat) \<in> {97, 98, 99, 100, 101, 102}"
    by (auto simp add: inRange_def)
  then have "c \<in> char_of ` {97 :: nat, 98, 99, 100, 101, 102}"
    by (metis char_of_char imageI)
  then show "c \<in> set ''abcdef''"
    by (auto simp add: char_of_eq_iff)
next
  assume "c \<in> set ''abcdef''"
  then show "inRange (CHR ''a'') (CHR ''f'') c"
    by (auto simp add: inRange_def)
qed

lemma inRange_digit: "inRange (CHR ''0'') (CHR ''9'') c \<longleftrightarrow> c \<in> set ''0123456789''"
proof
  assume "inRange (CHR ''0'') (CHR ''9'') c"
  then have "(of_char c :: nat) \<in> {48, 49, 50, 51, 52, 53, 54, 55, 56, 57}"
    by (simp add: inRange_def) arith
  then have "c \<in> char_of ` {48 :: nat, 49, 50, 51, 52, 53, 54, 55, 56, 57}"
    by (metis char_of_char imageI)
  then show "c \<in> set ''0123456789''"
    by (auto simp add: char_of_eq_iff)
next
  assume "c \<in> set ''0123456789''"
  then show "inRange (CHR ''0'') (CHR ''9'') c"
    by (auto simp add: inRange_def)
qed

lemma isHexCharacter_iff: "isHexCharacter c \<longleftrightarrow> isHexDigit c"
  unfolding isHexCharacter_def isHexDigit_def inRange_digit inRange_lower_hex inRange_upper_hex
  by auto

subsection \<open>The loops of the validator\<close>

lemma hasMixedCase_loop_iff:
  "hasMixedCase_loop s u l \<longleftrightarrow>
     (u \<or> (\<exists>c \<in> set s. c \<in> set ''ABCDEF'')) \<and> (l \<or> (\<exists>c \<in> set s. c \<in> set ''abcdef''))"
proof (induction s arbitrary: u l)
  case Nil
  show ?case by simp
next
  case (Cons c cs)
  let ?U = "c \<in> set ''ABCDEF''" and ?L = "c \<in> set ''abcdef''"
  have step: "hasMixedCase_loop (c # cs) u l =
      (if ?U then hasMixedCase_loop cs True l
       else if ?L then hasMixedCase_loop cs u True
       else hasMixedCase_loop cs u l)"
    by (simp only: hasMixedCase_loop.simps inRange_upper_hex inRange_lower_hex)
  have ex: "(\<exists>x \<in> set (c # cs). P x) \<longleftrightarrow> P c \<or> (\<exists>x \<in> set cs. P x)" for P
    by simp
  consider (up) "?U" "\<not> ?L" | (lo) "\<not> ?U" "?L" | (no) "\<not> ?U" "\<not> ?L"
    by auto
  then show ?case
  proof cases
    case up
    then show ?thesis unfolding step ex Cons.IH by simp
  next
    case lo
    then show ?thesis unfolding step ex Cons.IH by simp
  next
    case no
    then show ?thesis unfolding step ex Cons.IH by simp
  qed
qed

lemma TrimPrefix_0x: "TrimPrefix (''0x'' @ ds) ''0x'' = ds"
  by (simp add: TrimPrefix_def HasPrefix_def)

lemma hasMixedCase_iff: "hasMixedCase (''0x'' @ ds) = mixedCase (''0x'' @ ds)"
  unfolding hasMixedCase_def TrimPrefix_0x hasMixedCase_loop_iff mixedCase_def
  by auto

lemma length_EncodeToString: "length (EncodeToString src) = 2 * length src"
  by (induction src) (simp_all add: EncodeToString_def)

lemma EncodeToString_Cons:
  "EncodeToString (v # src) =
     hextable ! unat (drop_bit 4 v) # hextable ! unat (v AND 0x0f) # EncodeToString src"
  by (simp add: EncodeToString_def)

lemma unat_high_nibble: "unat (drop_bit 4 (v :: byte)) = unat v div 16"
  by (simp add: drop_bit_eq_div unat_div)

lemma unat_low_nibble: "unat ((v :: byte) AND 0x0f) = unat v mod 16"
proof -
  have "(v AND 0x0f) = take_bit 4 v"
    by (simp add: take_bit_eq_mask mask_eq_exp_minus_1)
  then show ?thesis
    by (simp add: take_bit_eq_mod unat_mod)
qed

lemma EncodeToString_nth:
  "i < 2 * length src \<Longrightarrow> EncodeToString src ! i = hextable ! nibble src i"
proof (induction src arbitrary: i)
  case Nil
  then show ?case by simp
next
  case (Cons v src)
  consider "i = 0" | "i = 1" | j where "i = Suc (Suc j)"
    by (cases i rule: nat.exhaust; cases "i - 1") auto
  then show ?case
  proof cases
    case 1
    then show ?thesis
      by (simp add: EncodeToString_Cons nibble_def unat_high_nibble)
  next
    case 2
    then show ?thesis
      by (simp add: EncodeToString_Cons nibble_def unat_low_nibble)
  next
    case 3
    with Cons.prems have j: "j < 2 * length src" by simp
    have "nibble (v # src) (Suc (Suc j)) = nibble src j"
      by (simp add: nibble_def)
    then show ?thesis
      using 3 Cons.IH [OF j] by (simp add: EncodeToString_Cons)
  qed
qed

lemma nibble_lt_16: "nibble src i < 16"
proof -
  have "unat (src ! (i div 2)) < 256"
    using unsigned_less [of "src ! (i div 2)", where ?'a = nat] by simp
  then show ?thesis
    by (auto simp add: nibble_def)
qed

lemma hextable_ge_8:
  assumes "n < 16"
  shows "(of_char (hextable ! n) :: nat) \<ge> of_char (CHR ''8'') \<longleftrightarrow> n \<ge> 8"
proof -
  have "n \<in> {0, 1, 2, 3, 4, 5, 6, 7, 8, 9, 10, 11, 12, 13, 14, 15}"
    using assms by simp arith
  then show ?thesis
    by (auto simp add: hextable_def)
qed

lemma toLowerChar_hex: "isHexDigit c \<Longrightarrow> toLowerChar c = lowerHex c"
  unfolding isHexDigit_def set_simps insert_iff empty_iff
  by (elim disjE) (simp_all add: toLowerChar_def lowerHex_def inRange_def char_of_eq_iff)

lemma lowerHex_hex: "isHexDigit c \<Longrightarrow> lowerHex c \<in> set ''0123456789abcdef''"
  unfolding isHexDigit_def set_simps insert_iff empty_iff
  by (elim disjE) (simp_all add: lowerHex_def)

lemma toUpperChar_hex: "c \<in> set ''0123456789abcdef'' \<Longrightarrow> toUpperChar c = upperHex c"
  unfolding set_simps insert_iff empty_iff
  by (elim disjE) (simp_all add: toUpperChar_def upperHex_def inRange_def char_of_eq_iff)

lemma digit_or_letter:
  "c \<in> set ''0123456789abcdef'' \<Longrightarrow> inRange (CHR ''0'') (CHR ''9'') c \<longleftrightarrow> c \<notin> set ''abcdef''"
  unfolding set_simps insert_iff empty_iff
  by (elim disjE) (simp_all add: inRange_def)



lemma toChecksumAddress_loop_eq:
  "i + length rest \<le> length hashHex \<Longrightarrow>
   toChecksumAddress_loop hashHex i rest result =
     Some (result @ map (\<lambda>j. checksumChar hashHex (i + j) (rest ! j)) [0..<length rest])"
proof (induction rest arbitrary: i result)
  case Nil
  show ?case by simp
next
  case (Cons c cs)
  from Cons.prems have i: "i < length hashHex" and n: "Suc i + length cs \<le> length hashHex"
    by simp_all
  have m: "map (\<lambda>j. checksumChar hashHex (i + j) ((c # cs) ! j)) [0..<length (c # cs)]
      = checksumChar hashHex i c # map (\<lambda>j. checksumChar hashHex (Suc i + j) (cs ! j)) [0..<length cs]"
    by (simp add: map_upt_Suc del: upt_Suc)
  have "toChecksumAddress_loop hashHex i (c # cs) result
      = toChecksumAddress_loop hashHex (Suc i) cs (result @ [checksumChar hashHex i c])"
    using i by (simp add: checksumChar_def ToUpper_def Let_def)
  also have "\<dots> = Some ((result @ [checksumChar hashHex i c]) @
      map (\<lambda>j. checksumChar hashHex (Suc i + j) (cs ! j)) [0..<length cs])"
    by (rule Cons.IH [OF n])
  finally show ?case
    by (simp only: m append_assoc append_Cons append_Nil)
qed

lemma checksumChar_eip55:
  assumes c: "c \<in> set ''0123456789abcdef''" and j: "j < 2 * length hash"
  shows "checksumChar (EncodeToString hash) j c =
     (if c \<in> set ''abcdef'' \<and> nibble hash j \<ge> 8 then upperHex c else c)"
  unfolding checksumChar_def digit_or_letter [OF c] EncodeToString_nth [OF j]
    hextable_ge_8 [OF nibble_lt_16] toUpperChar_hex [OF c]
  by simp

lemma toChecksumAddress_eip55:
  assumes K: "\<forall>x. length (K x) = 32" and len: "length ds = 40" and hex: "list_all isHexDigit ds"
  shows "toChecksumAddress K (''0x'' @ ds) = Some (eip55 K (''0x'' @ ds))"
proof -
  define raw where "raw = map lowerHex ds"
  define hash where "hash = K (bytesOf raw)"
  have low: "ToLower ds = raw"
    using hex by (simp add: ToLower_def raw_def list_all_iff toLowerChar_hex)
  have rlen: "length raw = 40" by (simp add: raw_def len)
  have hlen: "length hash = 32" by (simp add: hash_def K)
  have rawhex: "raw ! j \<in> set ''0123456789abcdef''" if "j < 40" for j
    using that hex len unfolding raw_def list_all_length
    by (simp only: nth_map lowerHex_hex)
  have "toChecksumAddress K (''0x'' @ ds)
      = toChecksumAddress_loop (EncodeToString hash) 0 raw ''0x''"
    by (simp only: toChecksumAddress_def TrimPrefix_0x low Let_def hash_def)
  also have "\<dots> = Some (''0x'' @ map (\<lambda>j. checksumChar (EncodeToString hash) (0 + j) (raw ! j))
                         [0..<length raw])"
    by (rule toChecksumAddress_loop_eq) (simp add: length_EncodeToString hlen rlen)
  also have "map (\<lambda>j. checksumChar (EncodeToString hash) (0 + j) (raw ! j)) [0..<length raw]
      = map (\<lambda>i. if raw ! i \<in> set ''abcdef'' \<and> nibble hash i \<ge> 8
                   then upperHex (raw ! i) else raw ! i) [0..<length raw]"
  proof (rule map_cong [OF refl])
    fix j assume "j \<in> set [0..<length raw]"
    then have j: "j < 40" by (simp add: rlen)
    then have j2: "j < 2 * length hash" by (simp add: hlen)
    show "checksumChar (EncodeToString hash) (0 + j) (raw ! j) =
        (if raw ! j \<in> set ''abcdef'' \<and> nibble hash j \<ge> 8 then upperHex (raw ! j) else raw ! j)"
      using checksumChar_eip55 [OF rawhex [OF j] j2] by simp
  qed
  also have "Some (''0x'' @ map (\<lambda>i. if raw ! i \<in> set ''abcdef'' \<and> nibble hash i \<ge> 8
                   then upperHex (raw ! i) else raw ! i) [0..<length raw]) = Some (eip55 K (''0x'' @ ds))"
    by (simp add: eip55_def raw_def hash_def Let_def)
  finally show ?thesis .
qed

lemma HasPrefix_0x: "HasPrefix a ''0x'' = (take 2 a = ''0x'')"
proof -
  have l: "length ''0x'' = 2" by simp
  have "take 2 a = ''0x'' \<Longrightarrow> 2 \<le> length a"
    using length_take [of 2 a] by (simp only: l)
  then show ?thesis
    by (auto simp only: HasPrefix_def l)
qed

lemma shape_iff:
  "HasPrefix a ''0x'' \<and> IsHexAddress a \<longleftrightarrow> addressShape a"
  unfolding HasPrefix_0x
  by (auto simp add: IsHexAddress_def has0xPrefix_def addressShape_def
        isHexCharacter_iff list_all_iff)

lemma ValidateAddress_eq:
  assumes K: "\<forall>x. length (K x) = 32"
  shows "EthereumCoin_ValidateAddress K a = Some (addressShape a \<and> (mixedCase a \<longrightarrow> a = eip55 K a))"
proof (cases "addressShape a")
  case False
  then show ?thesis
    using shape_iff [of a] by (auto simp add: EthereumCoin_ValidateAddress_def)
next
  case True
  then obtain ds where a: "a = ''0x'' @ ds" and len: "length ds = 40" and hex: "list_all isHexDigit ds"
    unfolding addressShape_def by (metis append_take_drop_id)
  have pre: "HasPrefix a ''0x''" and ishex: "IsHexAddress a"
    using True shape_iff [of a] by simp_all
  have mc: "hasMixedCase a = mixedCase a"
    unfolding a by (rule hasMixedCase_iff)
  have cs: "toChecksumAddress K a = Some (eip55 K a)"
    unfolding a by (rule toChecksumAddress_eip55 [OF K len hex])
  show ?thesis
    using True pre ishex
    by (auto simp add: EthereumCoin_ValidateAddress_def isValidChecksum_def mc cs)
qed

text \<open>
  C8. With any hash function of 32 bytes for Keccak-256, \<open>ValidateAddress\<close> of the
  Ethereum family is a total boolean function (it never panics): a candidate of the
  shape \<open>0x\<close> followed by 40 hex digits whose letter digits are not of mixed case is
  accepted unconditionally; a candidate of that shape with mixed case is accepted if
  and only if it equals its own EIP-55 checksummed form; every string not of that
  shape is rejected.
\<close>

theorem ValidateAddress_EIP55:
  assumes "\<forall>x. length (Keccak256Hash x) = 32"
  shows "(\<exists>b. EthereumCoin_ValidateAddress Keccak256Hash a = Some b) \<and>
         (addressShape a \<and> \<not> mixedCase a \<longrightarrow> EthereumCoin_ValidateAddress Keccak256Hash a = Some True) \<and>
         (addressShape a \<and> mixedCase a \<longrightarrow>
            (EthereumCoin_ValidateAddress Keccak256Hash a = Some True \<longleftrightarrow> a = eip55 Keccak256Hash a)) \<and>
         (\<not> addressShape a \<longrightarrow> EthereumCoin_ValidateAddress Keccak256Hash a = Some False)"
  by (simp add: ValidateAddress_eq [OF assms])

theorem ValidateAddress_EIP55_witness:
  "(\<forall>x :: byte list. length (replicate 32 (0x0F :: byte)) = 32) \<and>
   addressShape ''0xaB00000000000000000000000000000000000000'' \<and>
   mixedCase ''0xaB00000000000000000000000000000000000000'' \<and>
   eip55 (\<lambda>x. replicate 32 0x0F) ''0xaB00000000000000000000000000000000000000''
     = ''0xaB00000000000000000000000000000000000000'' \<and>
   EthereumCoin_ValidateAddress (\<lambda>x. replicate 32 0x0F) ''0xaB00000000000000000000000000000000000000''
     = Some True \<and>
   addressShape ''0xab00000000000000000000000000000000000000'' \<and>
   \<not> mixedCase ''0xab00000000000000000000000000000000000000'' \<and>
   EthereumCoin_ValidateAddress (\<lambda>x. replicate 32 0x0F) ''0xab00000000000000000000000000000000000000''
     = Some True \<and>
   \<not> addressShape ''0xaB'' \<and>
   EthereumCoin_ValidateAddress (\<lambda>x. replicate 32 0x0F) ''0xaB'' = Some False"
  using ValidateAddress_EIP55 [of "\<lambda>x. replicate 32 0x0F" "''0xaB00000000000000000000000000000000000000''"]
    ValidateAddress_EIP55 [of "\<lambda>x. replicate 32 0x0F" "''0xab00000000000000000000000000000000000000''"]
    ValidateAddress_EIP55 [of "\<lambda>x. replicate 32 0x0F" "''0xaB''"]
  by (simp add: addressShape_def isHexDigit_def mixedCase_def eip55_def Let_def lowerHex_def
        upperHex_def nibble_def upt_conv_Cons)

section \<open>Base58 and Solana addresses\<close>

subsection \<open>Positional numerals\<close>

lemma valueOf_Nil [simp]: "valueOf b [] = 0"
  by (simp add: valueOf_def)

lemma valueOf_snoc [simp]: "valueOf b (ds @ [d]) = valueOf b ds * b + d"
  by (simp add: valueOf_def)

lemma foldl_zeros: "foldl (\<lambda>v d. v * b + d) 0 (replicate z 0) = (0 :: nat)"
  by (induction z) simp_all

lemma valueOf_zeros [simp]: "valueOf b (replicate z 0 @ ds) = valueOf b ds"
  by (simp add: valueOf_def foldl_zeros)

lemma digitsOf_0 [simp]: "digitsOf b 0 = []"
  by (simp add: digitsOf.simps)

lemma digitsOf_step:
  "2 \<le> b \<Longrightarrow> 0 < n \<Longrightarrow> digitsOf b n = digitsOf b (n div b) @ [n mod b]"
  by (subst digitsOf.simps) simp

lemma valueOf_digitsOf: "2 \<le> b \<Longrightarrow> valueOf b (digitsOf b n) = n"
proof (induction b n rule: digitsOf.induct)
  case (1 b n)
  show ?case
  proof (cases "n = 0")
    case True
    then show ?thesis by simp
  next
    case False
    with "1.prems" have "valueOf b (digitsOf b (n div b)) = n div b"
      by (intro "1.IH") simp_all
    then show ?thesis
      using False "1.prems" by (simp add: digitsOf_step)
  qed
qed

lemma digitsOf_lt: "2 \<le> b \<Longrightarrow> d \<in> set (digitsOf b n) \<Longrightarrow> d < b"
proof (induction b n rule: digitsOf.induct)
  case (1 b n)
  show ?case
  proof (cases "n = 0")
    case True
    with "1.prems" show ?thesis by simp
  next
    case False
    with "1.prems"(1) have eq: "digitsOf b n = digitsOf b (n div b) @ [n mod b]"
      by (simp add: digitsOf_step)
    with "1.prems"(2) have "d \<in> set (digitsOf b (n div b)) \<or> d = n mod b"
      by auto
    then show ?thesis
      using "1.IH" "1.prems" False by auto
  qed
qed

lemma digitsOf_hd:
  "2 \<le> b \<Longrightarrow> 0 < n \<Longrightarrow> digitsOf b n \<noteq> [] \<and> hd (digitsOf b n) \<noteq> 0"
proof (induction b n rule: digitsOf.induct)
  case (1 b n)
  show ?case
  proof (cases "n div b = 0")
    case True
    with "1.prems" have "n mod b = n" by (simp add: div_eq_0_iff)
    with True "1.prems" show ?thesis
      by (simp add: digitsOf_step)
  next
    case False
    with "1.prems" have "digitsOf b (n div b) \<noteq> [] \<and> hd (digitsOf b (n div b)) \<noteq> 0"
      by (intro "1.IH") simp_all
    then show ?thesis
      using "1.prems" by (simp add: digitsOf_step)
  qed
qed

lemma canonical_digitsOf: "2 \<le> b \<Longrightarrow> canonical b (digitsOf b n)"
  using digitsOf_lt [of b _ n] digitsOf_hd [of b n]
  by (cases "n = 0") (auto simp add: canonical_def)

lemma valueOf_pos:
  assumes "0 < b" and "ds \<noteq> []" and "hd ds \<noteq> 0"
  shows "0 < valueOf b ds"
  using assms(2,3)
proof (induction ds rule: rev_induct)
  case Nil
  then show ?case by simp
next
  case (snoc d ds)
  show ?case
  proof (cases "ds = []")
    case True
    with snoc.prems show ?thesis by (simp add: valueOf_def)
  next
    case False
    with snoc.prems have "hd ds \<noteq> 0" by simp
    with False snoc.IH have "0 < valueOf b ds" by simp
    then show ?thesis
      using assms(1) by simp
  qed
qed

lemma digitsOf_valueOf:
  assumes b: "2 \<le> b"
  shows "canonical b ds \<Longrightarrow> digitsOf b (valueOf b ds) = ds"
proof (induction ds rule: rev_induct)
  case Nil
  show ?case by simp
next
  case (snoc d ds)
  from snoc.prems have d: "d < b" and can: "canonical b ds"
    by (auto simp add: canonical_def hd_append split: if_splits)
  show ?case
  proof (cases "ds = []")
    case True
    with snoc.prems have "d \<noteq> 0" by (simp add: canonical_def)
    then show ?thesis
      using True d b by (simp add: valueOf_def digitsOf_step)
  next
    case False
    with can have "hd ds \<noteq> 0" by (simp add: canonical_def)
    with False b have pos: "0 < valueOf b ds" by (intro valueOf_pos) simp_all
    then have "0 < valueOf b ds * b + d" using b by simp
    then have "digitsOf b (valueOf b ds * b + d)
        = digitsOf b ((valueOf b ds * b + d) div b) @ [(valueOf b ds * b + d) mod b]"
      using b by (intro digitsOf_step)
    also have "(valueOf b ds * b + d) div b = valueOf b ds" using d by simp
    also have "(valueOf b ds * b + d) mod b = d" using d by simp
    finally show ?thesis
      using snoc.IH [OF can] by simp
  qed
qed

lemma split_leading:
  "xs = replicate (zcount z xs) z @ dropWhile (\<lambda>x. x = z) xs"
proof -
  have "takeWhile (\<lambda>x. x = z) xs = replicate (zcount z xs) z"
    unfolding zcount_def
    by (intro replicate_length_same [symmetric]) (auto dest: set_takeWhileD)
  then show ?thesis
    by (metis takeWhile_dropWhile_id)
qed

lemma rest_leading:
  "dropWhile (\<lambda>x. x = z) xs = [] \<or> hd (dropWhile (\<lambda>x. x = z) xs) \<noteq> z"
  using hd_dropWhile [of "\<lambda>x. x = z" xs] by auto

lemma zcount_replicate_append:
  "ys = [] \<or> hd ys \<noteq> z \<Longrightarrow> zcount z (replicate n z @ ys) = n"
  by (cases ys) (auto simp add: zcount_def takeWhile_append)

subsection \<open>Encoding and decoding are inverse\<close>

lemma length_alphabet: "length alphabet = 58"
  by (simp add: alphabet_def)

lemma distinct_alphabet: "distinct alphabet"
  by (simp add: alphabet_def)

lemma indexOf_nth:
  "distinct xs \<Longrightarrow> d < length xs \<Longrightarrow> indexOf (xs ! d) xs = Some d"
proof (induction xs arbitrary: d)
  case Nil
  then show ?case by simp
next
  case (Cons x xs)
  show ?case
  proof (cases d)
    case 0
    then show ?thesis by simp
  next
    case (Suc e)
    with Cons.prems have "e < length xs" and "xs ! e \<noteq> x" and "distinct xs"
      by auto
    with Cons.IH [of e] Suc show ?thesis by simp
  qed
qed

lemma indexOf_Some:
  "indexOf c xs = Some i \<Longrightarrow> i < length xs \<and> xs ! i = c"
proof (induction xs arbitrary: i)
  case Nil
  then show ?case by simp
next
  case (Cons x xs)
  then show ?case
    by (cases "c = x") auto
qed

lemma alphabet_0: "alphabet ! 0 = CHR ''1''"
  by (simp add: alphabet_def)

lemma indexOf_1: "indexOf (CHR ''1'') alphabet = Some 0"
  by (simp add: alphabet_def)

lemma alphabet_nth_eq_1: "d < 58 \<Longrightarrow> alphabet ! d = CHR ''1'' \<longleftrightarrow> d = 0"
  using indexOf_nth [OF distinct_alphabet, of d] indexOf_1 alphabet_0
  by (auto simp add: length_alphabet)

lemma unat_byte_lt: "unat (w :: byte) < 256"
  using unsigned_less [of w] by simp

lemma unat_zero_iff: "unat (w :: byte) = 0 \<longleftrightarrow> w = 0"
  by (simp add: unat_eq_0)

lemma decode58_encode58: "decode58 (encode58 bin) = Some bin"
proof -
  define z where "z = zcount 0 bin"
  define rest where "rest = dropWhile (\<lambda>x. x = 0) bin"
  define ds where "ds = digitsOf 58 (valueOf 256 (map unat bin))"
  have bin: "bin = replicate z 0 @ rest"
    unfolding z_def rest_def by (rule split_leading)
  have rest: "rest = [] \<or> hd rest \<noteq> 0"
    unfolding rest_def by (rule rest_leading)
  have v: "valueOf 256 (map unat bin) = valueOf 256 (map unat rest)"
    by (subst bin) (simp add: map_replicate_const)
  have crest: "canonical 256 (map unat rest)"
  proof (cases rest)
    case Nil
    then show ?thesis by (simp add: canonical_def)
  next
    case (Cons r rs)
    with rest have "unat r \<noteq> 0" by (simp add: unat_zero_iff)
    then show ?thesis
      using Cons by (auto simp add: canonical_def unat_byte_lt)
  qed
  have cds: "canonical 58 ds"
    unfolding ds_def by (rule canonical_digitsOf) simp
  then have lt: "d < 58" if "d \<in> set ds" for d
    using that by (simp add: canonical_def)
  have enc: "encode58 bin = replicate z (CHR ''1'') @ map (\<lambda>d. alphabet ! d) ds"
    by (simp add: encode58_def z_def ds_def)
  have idx: "indexOf (alphabet ! d) alphabet = Some d" if "d \<in> set ds" for d
    using lt [OF that] by (intro indexOf_nth distinct_alphabet) (simp add: length_alphabet)
  have valid: "list_all (\<lambda>c. indexOf c alphabet \<noteq> None) (encode58 bin)"
    by (auto simp add: enc list_all_iff indexOf_1 idx)
  have hd: "map (\<lambda>d. alphabet ! d) ds = [] \<or> hd (map (\<lambda>d. alphabet ! d) ds) \<noteq> CHR ''1''"
  proof (cases ds)
    case Nil
    then show ?thesis by simp
  next
    case (Cons d ds')
    with cds have "d \<noteq> 0" and "d < 58" by (simp_all add: canonical_def)
    then show ?thesis
      using Cons by (simp add: alphabet_nth_eq_1)
  qed
  have zc: "zcount (CHR ''1'') (encode58 bin) = z"
    unfolding enc by (rule zcount_replicate_append [OF hd])
  have digs: "map (\<lambda>c. the (indexOf c alphabet)) (encode58 bin) = replicate z 0 @ ds"
    by (simp add: enc indexOf_1 map_replicate_const idx cong: map_cong)
  have "valueOf 58 (replicate z 0 @ ds) = valueOf 256 (map unat rest)"
    by (simp add: ds_def valueOf_digitsOf v)
  moreover have "digitsOf 256 (valueOf 256 (map unat rest)) = map unat rest"
    by (rule digitsOf_valueOf [OF _ crest]) simp
  moreover have "map of_nat (map unat rest) = rest"
    by (simp add: map_idI)
  ultimately have "decode58 (encode58 bin) = Some (replicate z 0 @ rest)"
    using valid by (simp add: decode58_def zc digs)
  then show ?thesis
    by (simp only: bin [symmetric])
qed

lemma encode58_decode58:
  assumes "decode58 str = Some bin"
  shows "encode58 bin = str"
proof -
  define z where "z = zcount (CHR ''1'') str"
  define rest where "rest = dropWhile (\<lambda>x. x = CHR ''1'') str"
  define idx where "idx = (\<lambda>c. the (indexOf c alphabet))"
  define bs where "bs = digitsOf 256 (valueOf 58 (map idx str))"
  have str: "str = replicate z (CHR ''1'') @ rest"
    unfolding z_def rest_def by (rule split_leading)
  have rest: "rest = [] \<or> hd rest \<noteq> CHR ''1''"
    unfolding rest_def by (rule rest_leading)
  from assms have valid: "list_all (\<lambda>c. indexOf c alphabet \<noteq> None) str"
    and bin: "bin = replicate z 0 @ map of_nat bs"
    by (auto simp add: decode58_def z_def bs_def idx_def split: if_splits)
  have ix: "idx c < 58 \<and> alphabet ! idx c = c" if "c \<in> set str" for c
  proof -
    from valid that obtain i where "indexOf c alphabet = Some i"
      by (auto simp add: list_all_iff)
    then show ?thesis
      using indexOf_Some [of c alphabet i] by (simp add: idx_def length_alphabet)
  qed
  have restsub: "set rest \<subseteq> set str"
    unfolding rest_def by (auto dest: set_dropWhileD)
  have idx1: "idx (CHR ''1'') = 0"
    by (simp add: idx_def indexOf_1)
  have v: "valueOf 58 (map idx str) = valueOf 58 (map idx rest)"
    by (subst str) (simp add: map_replicate_const idx1)
  have crest: "canonical 58 (map idx rest)"
  proof -
    have "idx (hd rest) \<noteq> 0" if "rest \<noteq> []"
    proof
      assume "idx (hd rest) = 0"
      moreover have "hd rest \<in> set str" using that restsub by auto
      ultimately have "hd rest = alphabet ! 0" using ix by metis
      with rest that show False by (simp add: alphabet_0)
    qed
    moreover have "idx c < 58" if "c \<in> set rest" for c
      using that ix restsub by auto
    ultimately show ?thesis
      by (cases rest) (auto simp add: canonical_def)
  qed
  have cbs: "canonical 256 bs"
    unfolding bs_def by (rule canonical_digitsOf) simp
  have ub': "map unat (map of_nat bs :: byte list) = bs"
    using cbs by (auto simp add: canonical_def unat_of_nat intro!: map_idI)
  have hdb: "(map of_nat bs :: byte list) = [] \<or> hd (map of_nat bs :: byte list) \<noteq> 0"
  proof (cases bs)
    case Nil
    then show ?thesis by simp
  next
    case (Cons b bs')
    with cbs have "b \<noteq> 0" and "b < 256" by (simp_all add: canonical_def)
    then have "unat (of_nat b :: byte) \<noteq> 0" by (simp add: unat_of_nat)
    then show ?thesis using Cons by auto
  qed
  have zc: "zcount 0 bin = z"
    unfolding bin by (rule zcount_replicate_append [OF hdb])
  have "valueOf 256 (map unat bin) = valueOf 256 bs"
    unfolding bin by (simp only: map_append map_replicate ub' unat_0 valueOf_zeros)
  also have "\<dots> = valueOf 58 (map idx rest)"
    by (simp add: bs_def valueOf_digitsOf v)
  finally have "digitsOf 58 (valueOf 256 (map unat bin)) = map idx rest"
    using digitsOf_valueOf [OF _ crest] by simp
  moreover have "map (\<lambda>d. alphabet ! d) (map idx rest) = rest"
    using ix restsub by (auto intro!: map_idI)
  ultimately have "encode58 bin = replicate z (CHR ''1'') @ rest"
    by (simp add: encode58_def zc)
  then show ?thesis
    by (simp only: str [symmetric])
qed

lemma encode58_nonempty: "bin \<noteq> [] \<Longrightarrow> encode58 bin \<noteq> []"
proof
  assume "bin \<noteq> []" and "encode58 bin = []"
  then have "decode58 [] = Some bin"
    using decode58_encode58 [of bin] by simp
  then show False
    using \<open>bin \<noteq> []\<close> by (simp add: decode58_def zcount_def)
qed

lemma base58_Decode_Encode:
  "bin \<noteq> [] \<Longrightarrow> base58_Decode (base58_Encode bin) = Inr bin"
  by (simp add: base58_Decode_def base58_Encode_def encode58_nonempty decode58_encode58)

text \<open>
  C10. \<open>ValidateAddress\<close> of the Solana family returns true if and only if the string
  Base58-decodes successfully to exactly 32 bytes, and false on every other string (it
  is a total boolean function); so for every 32-byte public key, whether or not it is
  a point of the curve, the address made from it is valid.
\<close>

theorem SolanaCoin_ValidateAddress_iff:
  "(SolanaCoin_ValidateAddress s \<longleftrightarrow>
      (\<exists>decoded. base58_Decode s = Inr decoded \<and> length decoded = 32)) \<and>
   (length pk = 32 \<longrightarrow> SolanaCoin_ValidateAddress (AddressFromPublicKey pk))"
proof
  show "SolanaCoin_ValidateAddress s \<longleftrightarrow>
      (\<exists>decoded. base58_Decode s = Inr decoded \<and> length decoded = 32)"
    by (cases "base58_Decode s") (simp_all add: SolanaCoin_ValidateAddress_def)
  show "length pk = 32 \<longrightarrow> SolanaCoin_ValidateAddress (AddressFromPublicKey pk)"
  proof
    assume l: "length pk = 32"
    then have "pk \<noteq> []" by auto
    then show "SolanaCoin_ValidateAddress (AddressFromPublicKey pk)"
      using l
      by (simp add: SolanaCoin_ValidateAddress_def AddressFromPublicKey_def base58_Decode_Encode)
  qed
qed

theorem SolanaCoin_ValidateAddress_iff_witness:
  "length [0, 0, 0, 0, 0, 0, 0, 0, 0, 0, 0, 0, 0, 0, 0, 0,
           0, 0, 0, 0, 0, 0, 0, 0, 0, 0, 0, 0, 0, 0, 0, 1 :: byte] = 32 \<and>
   AddressFromPublicKey [0, 0, 0, 0, 0, 0, 0, 0, 0, 0, 0, 0, 0, 0, 0, 0,
                         0, 0, 0, 0, 0, 0, 0, 0, 0, 0, 0, 0, 0, 0, 0, 1]
     = ''11111111111111111111111111111112'' \<and>
   SolanaCoin_ValidateAddress ''11111111111111111111111111111112'' \<and>
   \<not> SolanaCoin_ValidateAddress ''invalid''"
proof -
  have a: "AddressFromPublicKey [0, 0, 0, 0, 0, 0, 0, 0, 0, 0, 0, 0, 0, 0, 0, 0,
                         0, 0, 0, 0, 0, 0, 0, 0, 0, 0, 0, 0, 0, 0, 0, 1]
     = ''11111111111111111111111111111112''"
    by (simp add: AddressFromPublicKey_def base58_Encode_def encode58_def zcount_def
          valueOf_def digitsOf.simps alphabet_def)
  have n: "\<not> SolanaCoin_ValidateAddress ''invalid''"
    by (simp add: base58_Decode_def decode58_def alphabet_def SolanaCoin_ValidateAddress_def)
  show ?thesis
    using SolanaCoin_ValidateAddress_iff
      [of "''invalid''" "[0, 0, 0, 0, 0, 0, 0, 0, 0, 0, 0, 0, 0, 0, 0, 0,
                          0, 0, 0, 0, 0, 0, 0, 0, 0, 0, 0, 0, 0, 0, 0, 1]"] n
    by (simp add: a)
qed

section \<open>Account derivation and the private key\<close>

lemma load_fill_same: "load (fill r p s) r = replicate (length (load s r)) p"
  by (simp add: load_def fill_def map_replicate_const)

lemma load_fill_other: "r' \<noteq> r \<Longrightarrow> load (fill r p s) r' = load s r'"
  by (simp add: load_def fill_def)

lemma load_SecureZeroMemory_same:
  "load (SecureZeroMemory r s) r = replicate (length (load s r)) 0"
  by (simp add: SecureZeroMemory_def load_fill_same Let_def)

lemma load_SecureZeroMemory_other:
  "r' \<noteq> r \<Longrightarrow> load (SecureZeroMemory r s) r' = load s r'"
  by (simp add: SecureZeroMemory_def load_fill_other Let_def)

lemma load_alloc_same: "load (snd (alloc bs s)) (fst (alloc bs s)) = bs"
  by (simp add: alloc_def load_def)

lemma load_alloc_other: "r \<noteq> fresh s \<Longrightarrow> load (snd (alloc bs s)) r = load s r"
  by (simp add: alloc_def load_def)

lemma fst_alloc: "fst (alloc bs s) = fresh s"
  by (simp add: alloc_def)

lemma fresh_alloc: "fresh (snd (alloc bs s)) = Suc (fresh s)"
  by (simp add: alloc_def)

text \<open>
  The Bitcoin derivation stores a fresh serialisation of the key in the account, which
  the wiping of \<open>privateKeyBytes\<close> does not touch.
\<close>

lemma BitcoinCoin_DeriveAccount_keeps_key:
  assumes a: "BitcoinCoin_DeriveAccount L b seed path s = Inr (account, s')"
  shows "\<exists>key. DeriveKey L seed path = Inr key \<and>
           load s' (PrivateKey account) = Serialize L (PrivKeyFromBytes L (Key L key))"
proof -
  from a obtain key where k: "DeriveKey L seed path = Inr key"
    by (cases "DeriveKey L seed path") (simp_all add: BitcoinCoin_DeriveAccount_def)
  define r where "r = fst (alloc (Key L key) s)"
  define s1 where "s1 = snd (alloc (Key L key) s)"
  define privateKey where "privateKey = PrivKeyFromBytes L (load s1 r)"
  define r2 where "r2 = fst (alloc (SerializeCompressed L privateKey) s1)"
  define s2 where "s2 = snd (alloc (SerializeCompressed L privateKey) s1)"
  define r3 where "r3 = fst (alloc (Serialize L privateKey) s2)"
  define s3 where "s3 = snd (alloc (Serialize L privateKey) s2)"
  have al: "alloc (Key L key) s = (r, s1)"
    "alloc (SerializeCompressed L privateKey) s1 = (r2, s2)"
    "alloc (Serialize L privateKey) s2 = (r3, s3)"
    by (simp_all add: r_def s1_def r2_def s2_def r3_def s3_def)
  have l1: "load s1 r = Key L key"
    unfolding s1_def r_def by (rule load_alloc_same)
  have l3: "load s3 r3 = Serialize L privateKey"
    unfolding s3_def r3_def by (rule load_alloc_same)
  have ne: "r3 \<noteq> r"
    by (simp add: r_def r3_def s2_def s1_def fst_alloc fresh_alloc)
  from a k al have "PrivateKey account = r3" and "s' = SecureZeroMemory r s3"
    by (auto simp add: BitcoinCoin_DeriveAccount_def Let_def privateKey_def split: option.splits)
  then have "load s' (PrivateKey account) = Serialize L privateKey"
    using load_SecureZeroMemory_other [OF ne] l3 by simp
  with k l1 show ?thesis
    by (auto simp add: privateKey_def)
qed

lemma stubLib_sel:
  "NewMasterKey stubLib seed = Some seed" "NewChildKey stubLib k i = Some k" "Key stubLib k = k"
  "ToECDSA stubLib b = Some b" "FromECDSAPub stubLib p = p"
  "Keccak256 stubLib = (\<lambda>x. [0x0F, 0x0F, 0x0F, 0x0F, 0x0F, 0x0F, 0x0F, 0x0F, 0x0F, 0x0F, 0x0F, 0x0F, 0x0F, 0x0F, 0x0F, 0x0F, 0x0F, 0x0F, 0x0F, 0x0F, 0x0F, 0x0F, 0x0F, 0x0F, 0x0F, 0x0F, 0x0F, 0x0F, 0x0F, 0x0F, 0x0F, 0x0F])"
  "AddressHex stubLib b = ''0x'' @ EncodeToString b"
  "Sum256 stubLib = (\<lambda>x. [0, 0, 0, 0, 0, 0, 0, 0, 0, 0, 0, 0, 0, 0, 0, 0, 0, 0, 0, 0, 0, 0, 0, 0, 0, 0, 0, 0, 0, 0, 0, 0])" "Now stubLib = 0"
  by (simp_all add: stubLib_def)

lemma DeriveKey_stub_eth: "DeriveKey stubLib [1, 2, 3] ''m/44'/60'/0'/0/0'' = Inr [1, 2, 3]"
  by (simp add: DeriveKey_def stubLib_sel ParseDerivationPath_def HasPrefix_def
        parsePathComponent_def HasSuffix_def apostrophe_def ParseUint_def isDigit_def
        digitVal_def cutoff_def maxVal_def)

lemma publicKeyToAddress_stub_eth: "EthereumCoin_publicKeyToAddress stubLib [1, 2, 3] = Some ''0x0F0F0F0F0F0F0F0F0F0F0F0F0F0F0F0F0F0F0F0F''"
  by (simp add: EthereumCoin_publicKeyToAddress_def stubLib_sel stripUncompressedPrefix_def
        BytesToAddress_def toChecksumAddress_def EncodeToString_def hextable_def
        TrimPrefix_def HasPrefix_def ToLower_def toLowerChar_def inRange_def ToUpper_def
        toUpperChar_def char_of_eq_iff Let_def)

lemma DeriveAccount_stub_eth: "EthereumCoin_DeriveAccount stubLib NewEthereum [1, 2, 3] ''m/44'/60'/0'/0/0''
       \<lparr>arrays = (\<lambda>_. []), fresh = 0\<rparr>
     = Inr (\<lparr>Path = ''m/44'/60'/0'/0/0'', PrivateKey = 0, PublicKey = 1,
              Address = ''0x0F0F0F0F0F0F0F0F0F0F0F0F0F0F0F0F0F0F0F0F'', Symbol = ''ETH'',
              CreatedAt = 0\<rparr>,
            \<lparr>arrays = (\<lambda>_. [])(0 := [0, 0, 0], 1 := [1, 2, 3]), fresh = 2\<rparr>)"
  by (simp add: EthereumCoin_DeriveAccount_def DeriveKey_stub_eth alloc_def load_def stubLib_sel NewEthereum_def publicKeyToAddress_stub_eth
        SecureZeroMemory_def fill_def Let_def fun_upd_twist)

lemma cutoff_not_le_1: "\<not> (1844674407370955162 :: uint64) \<le> 1"
  by (simp add: word_le_nat_alt)

lemma DeriveKey_stub_tron: "DeriveKey stubLib [1, 2, 3] ''m/44'/195'/0'/0/0'' = Inr [1, 2, 3]"
  by (simp add: DeriveKey_def stubLib_sel ParseDerivationPath_def HasPrefix_def
        parsePathComponent_def HasSuffix_def apostrophe_def ParseUint_def isDigit_def
        digitVal_def cutoff_def maxVal_def cutoff_not_le_1)

lemma DeriveAccount_stub_tron: "TronCoin_DeriveAccount stubLib NewTron [1, 2, 3] ''m/44'/195'/0'/0/0''
       \<lparr>arrays = (\<lambda>_. []), fresh = 0\<rparr>
     = Inr (\<lparr>Path = ''m/44'/195'/0'/0/0'', PrivateKey = 0, PublicKey = 1,
              Address = TronCoin_publicKeyToAddress stubLib [1, 2, 3], Symbol = ''TRX'',
              CreatedAt = 0\<rparr>,
            \<lparr>arrays = (\<lambda>_. [])(0 := [0, 0, 0], 1 := [1, 2, 3]), fresh = 2\<rparr>)"
  by (simp add: TronCoin_DeriveAccount_def DeriveKey_stub_tron alloc_def load_def stubLib_sel NewTron_def
        SecureZeroMemory_def fill_def Let_def fun_upd_twist)

text \<open>
  C2 (the code on every successful derivation). The claim asks that the account
  returned by \<open>DeriveAccount\<close> holds the derived private key, not a wiped buffer. In
  the Ethereum and TRON derivations the private key of the account is the slice
  \<open>key.Key\<close> itself, and \<open>SecureZeroMemory\<close> overwrites that same memory before the
  account is returned: whatever the libraries compute, the private key bytes of every
  account these two derivations return are all zero.
\<close>

theorem DeriveAccount_returns_wiped_key:
  "(EthereumCoin_DeriveAccount L e seed path s = Inr (account, s') \<longrightarrow>
      (\<exists>key. DeriveKey L seed path = Inr key \<and>
             load s' (PrivateKey account) = replicate (length (Key L key)) 0)) \<and>
   (TronCoin_DeriveAccount L t seed path s = Inr (account, s') \<longrightarrow>
      (\<exists>key. DeriveKey L seed path = Inr key \<and>
             load s' (PrivateKey account) = replicate (length (Key L key)) 0))"
proof (intro conjI impI)
  assume a: "EthereumCoin_DeriveAccount L e seed path s = Inr (account, s')"
  then obtain key where k: "DeriveKey L seed path = Inr key"
    by (cases "DeriveKey L seed path") (simp_all add: EthereumCoin_DeriveAccount_def)
  define s1 where "s1 = snd (alloc (Key L key) s)"
  define r where "r = fst (alloc (Key L key) s)"
  have al: "alloc (Key L key) s = (r, s1)" by (simp add: r_def s1_def)
  have l1: "load s1 r = Key L key"
    unfolding s1_def r_def by (rule load_alloc_same)
  from a k al obtain privateKey where p: "ToECDSA L (load s1 r) = Some privateKey"
    by (cases "ToECDSA L (load s1 r)") (simp_all add: EthereumCoin_DeriveAccount_def)
  define s2 where "s2 = snd (alloc (FromECDSAPub L privateKey) s1)"
  define r2 where "r2 = fst (alloc (FromECDSAPub L privateKey) s1)"
  have al2: "alloc (FromECDSAPub L privateKey) s1 = (r2, s2)" by (simp add: r2_def s2_def)
  have ne: "r \<noteq> fresh s1"
    by (simp add: r_def s1_def fst_alloc fresh_alloc)
  have l2: "load s2 r = Key L key"
    unfolding s2_def using load_alloc_other [OF ne] l1 by simp
  from a k al p al2 have "PrivateKey account = r" and "s' = SecureZeroMemory r s2"
    by (auto simp add: EthereumCoin_DeriveAccount_def Let_def split: option.splits)
  then have "load s' (PrivateKey account) = replicate (length (Key L key)) 0"
    by (simp add: load_SecureZeroMemory_same l2)
  with k show "\<exists>key. DeriveKey L seed path = Inr key \<and>
             load s' (PrivateKey account) = replicate (length (Key L key)) 0"
    by blast
next
  assume a: "TronCoin_DeriveAccount L t seed path s = Inr (account, s')"
  then obtain key where k: "DeriveKey L seed path = Inr key"
    by (cases "DeriveKey L seed path") (simp_all add: TronCoin_DeriveAccount_def)
  define s1 where "s1 = snd (alloc (Key L key) s)"
  define r where "r = fst (alloc (Key L key) s)"
  have al: "alloc (Key L key) s = (r, s1)" by (simp add: r_def s1_def)
  have l1: "load s1 r = Key L key"
    unfolding s1_def r_def by (rule load_alloc_same)
  from a k al obtain privateKey where p: "ToECDSA L (load s1 r) = Some privateKey"
    by (cases "ToECDSA L (load s1 r)") (simp_all add: TronCoin_DeriveAccount_def)
  define s2 where "s2 = snd (alloc (FromECDSAPub L privateKey) s1)"
  define r2 where "r2 = fst (alloc (FromECDSAPub L privateKey) s1)"
  have al2: "alloc (FromECDSAPub L privateKey) s1 = (r2, s2)" by (simp add: r2_def s2_def)
  have ne: "r \<noteq> fresh s1"
    by (simp add: r_def s1_def fst_alloc fresh_alloc)
  have l2: "load s2 r = Key L key"
    unfolding s2_def using load_alloc_other [OF ne] l1 by simp
  from a k al p al2 have "PrivateKey account = r" and "s' = SecureZeroMemory r s2"
    by (auto simp add: TronCoin_DeriveAccount_def Let_def)
  then have "load s' (PrivateKey account) = replicate (length (Key L key)) 0"
    by (simp add: load_SecureZeroMemory_same l2)
  with k show "\<exists>key. DeriveKey L seed path = Inr key \<and>
             load s' (PrivateKey account) = replicate (length (Key L key)) 0"
    by blast
qed

theorem DeriveAccount_returns_wiped_key_witness:
  "EthereumCoin_DeriveAccount stubLib NewEthereum [1, 2, 3] ''m/44'/60'/0'/0/0''
       \<lparr>arrays = (\<lambda>_. []), fresh = 0\<rparr>
     = Inr (\<lparr>Path = ''m/44'/60'/0'/0/0'', PrivateKey = 0, PublicKey = 1,
              Address = ''0x0F0F0F0F0F0F0F0F0F0F0F0F0F0F0F0F0F0F0F0F'', Symbol = ''ETH'',
              CreatedAt = 0\<rparr>,
            \<lparr>arrays = (\<lambda>_. [])(0 := [0, 0, 0], 1 := [1, 2, 3]), fresh = 2\<rparr>) \<and>
   DeriveKey stubLib [1, 2, 3] ''m/44'/60'/0'/0/0'' = Inr [1, 2, 3] \<and>
   TronCoin_DeriveAccount stubLib NewTron [1, 2, 3] ''m/44'/195'/0'/0/0''
       \<lparr>arrays = (\<lambda>_. []), fresh = 0\<rparr>
     = Inr (\<lparr>Path = ''m/44'/195'/0'/0/0'', PrivateKey = 0, PublicKey = 1,
              Address = TronCoin_publicKeyToAddress stubLib [1, 2, 3], Symbol = ''TRX'',
              CreatedAt = 0\<rparr>,
            \<lparr>arrays = (\<lambda>_. [])(0 := [0, 0, 0], 1 := [1, 2, 3]), fresh = 2\<rparr>) \<and>
   DeriveKey stubLib [1, 2, 3] ''m/44'/195'/0'/0/0'' = Inr [1, 2, 3] \<and>
   load \<lparr>arrays = (\<lambda>_. [])(0 := [0, 0, 0], 1 := [1, 2, 3 :: byte]), fresh = 2\<rparr> 0
     = replicate (length [1, 2, 3 :: byte]) 0"
  using DeriveAccount_returns_wiped_key
    [of stubLib NewEthereum "[1, 2, 3]" "''m/44'/60'/0'/0/0''"
        "\<lparr>arrays = (\<lambda>_. []), fresh = 0\<rparr>"
        "\<lparr>Path = ''m/44'/60'/0'/0/0'', PrivateKey = 0, PublicKey = 1,
              Address = ''0x0F0F0F0F0F0F0F0F0F0F0F0F0F0F0F0F0F0F0F0F'', Symbol = ''ETH'',
              CreatedAt = 0\<rparr>"
        "\<lparr>arrays = (\<lambda>_. [])(0 := [0, 0, 0], 1 := [1, 2, 3]), fresh = 2\<rparr>"]
    DeriveAccount_returns_wiped_key
    [of stubLib _ "[1, 2, 3]" "''m/44'/195'/0'/0/0''"
        "\<lparr>arrays = (\<lambda>_. []), fresh = 0\<rparr>"
        "\<lparr>Path = ''m/44'/195'/0'/0/0'', PrivateKey = 0, PublicKey = 1,
              Address = TronCoin_publicKeyToAddress stubLib [1, 2, 3], Symbol = ''TRX'',
              CreatedAt = 0\<rparr>"
        "\<lparr>arrays = (\<lambda>_. [])(0 := [0, 0, 0], 1 := [1, 2, 3]), fresh = 2\<rparr>" NewTron]
  by (simp add: DeriveAccount_stub_eth DeriveAccount_stub_tron DeriveKey_stub_eth DeriveKey_stub_tron load_def)

end
